theory Spec2Isabelle
  imports Complex_Main
begin

section \<open>JavaScript numbers and strings used by mockKVService.js\<close>

text \<open>
  A JavaScript Number is a binary64 value. The model keeps a finite Number as the
  real it denotes, next to the two infinities and NaN, and rounds the result of
  every \<^verbatim>\<open>+\<close>, \<^verbatim>\<open>-\<close>, \<^verbatim>\<open>*\<close> and \<^verbatim>\<open>/\<close> on Numbers to the nearest binary64
  value, ties to the even significand, as IEEE 754 does. The exponent range is
  not bounded (overflow to an infinity and subnormal results are not modelled)
  and zero has no sign. Division by zero, the propagation of NaN and comparisons
  with NaN follow ECMAScript.

  Clock readings, the delays handed to the timer and the measured duration are
  times: they are exact reals in the model.
\<close>

datatype jsnum = Fin real | PInf | NInf | NaN

text \<open>The nearest integer, a tie going to the even one.\<close>

definition round_half_even :: "real \<Rightarrow> int" where
  "round_half_even x =
     (let f = \<lfloor>x\<rfloor>; r = x - of_int f
      in if r < 1 / 2 then f else if 1 / 2 < r then f + 1 else if even f then f else f + 1)"

text \<open>The binary exponent \<open>e\<close> of a positive real: \<open>2^e \<le> x < 2^(e+1)\<close>.\<close>

function binade :: "real \<Rightarrow> int" where
  "binade x =
     (if x \<le> 0 then 0
      else if 2 \<le> x then binade (x / 2) + 1
      else if x < 1 then binade (x * 2) - 1
      else 0)"
  by pat_completeness auto
termination
proof (relation "measure (\<lambda>x. nat \<bar>\<lfloor>log 2 x\<rfloor>\<bar>)")
  show "wf (measure (\<lambda>x. nat \<bar>\<lfloor>log 2 x\<rfloor>\<bar>))"
    by simp
next
  fix x :: real
  assume "\<not> x \<le> 0" and big: "2 \<le> x"
  define k where "k = \<lfloor>log 2 x\<rfloor>"
  have "log 2 (x / 2) = log 2 x - 1"
    using \<open>\<not> x \<le> 0\<close> by (simp add: log_divide)
  then have half: "\<lfloor>log 2 (x / 2)\<rfloor> = k - 1"
    unfolding k_def by simp
  have "1 \<le> log 2 x"
    using big by (simp add: le_log_iff)
  then have "1 \<le> k"
    unfolding k_def by simp
  then have "nat \<bar>k - 1\<bar> < nat \<bar>k\<bar>"
    by linarith
  then show "(x / 2, x) \<in> measure (\<lambda>x. nat \<bar>\<lfloor>log 2 x\<rfloor>\<bar>)"
    unfolding in_measure half k_def[symmetric] .
next
  fix x :: real
  assume pos: "\<not> x \<le> 0" and "\<not> 2 \<le> x" and small: "x < 1"
  define k where "k = \<lfloor>log 2 x\<rfloor>"
  have "log 2 (x * 2) = log 2 x + 1"
    using pos by (simp add: log_mult)
  then have double: "\<lfloor>log 2 (x * 2)\<rfloor> = k + 1"
    unfolding k_def by simp
  have "log 2 x < 0"
    using pos small by simp
  then have "k < 0"
    unfolding k_def by (simp add: floor_less_iff)
  then have "nat \<bar>k + 1\<bar> < nat \<bar>k\<bar>"
    by linarith
  then show "(x * 2, x) \<in> measure (\<lambda>x. nat \<bar>\<lfloor>log 2 x\<rfloor>\<bar>)"
    unfolding in_measure double k_def[symmetric] .
qed

text \<open>Two to an integer power.\<close>

definition pow2 :: "int \<Rightarrow> real" where
  "pow2 e = (if 0 \<le> e then 2 ^ nat e else 1 / 2 ^ nat (- e))"

text \<open>
  The nearest binary64 value: with \<open>2^e \<le> |x| < 2^(e+1)\<close> the significand has 53
  bits, so the spacing of the values around \<open>x\<close> is \<open>2^(e-52)\<close>.
\<close>

definition round64 :: "real \<Rightarrow> real" where
  "round64 x =
     (if x = 0 then 0
      else (let ulp = pow2 (binade \<bar>x\<bar> - 52)
            in sgn x * of_int (round_half_even (\<bar>x\<bar> / ulp)) * ulp))"

text \<open>The infinity with the sign of a real; the sign of zero gives NaN (0 * Infinity, 0 / 0).\<close>

definition inf_signed :: "real \<Rightarrow> jsnum" where
  "inf_signed a = (if a = 0 then NaN else if 0 < a then PInf else NInf)"

fun js_add :: "jsnum \<Rightarrow> jsnum \<Rightarrow> jsnum" where
  "js_add (Fin a) (Fin b) = Fin (round64 (a + b))"
| "js_add NaN _ = NaN"
| "js_add _ NaN = NaN"
| "js_add PInf NInf = NaN"
| "js_add NInf PInf = NaN"
| "js_add PInf _ = PInf"
| "js_add _ PInf = PInf"
| "js_add NInf _ = NInf"
| "js_add _ NInf = NInf"

fun js_neg :: "jsnum \<Rightarrow> jsnum" where
  "js_neg (Fin a) = Fin (- a)"
| "js_neg PInf = NInf"
| "js_neg NInf = PInf"
| "js_neg NaN = NaN"

definition js_sub :: "jsnum \<Rightarrow> jsnum \<Rightarrow> jsnum" where
  "js_sub x y = js_add x (js_neg y)"

fun js_mul :: "jsnum \<Rightarrow> jsnum \<Rightarrow> jsnum" where
  "js_mul (Fin a) (Fin b) = Fin (round64 (a * b))"
| "js_mul NaN _ = NaN"
| "js_mul _ NaN = NaN"
| "js_mul PInf (Fin b) = inf_signed b"
| "js_mul (Fin a) PInf = inf_signed a"
| "js_mul NInf (Fin b) = inf_signed (- b)"
| "js_mul (Fin a) NInf = inf_signed (- a)"
| "js_mul PInf PInf = PInf"
| "js_mul NInf NInf = PInf"
| "js_mul PInf NInf = NInf"
| "js_mul NInf PInf = NInf"

fun js_div :: "jsnum \<Rightarrow> jsnum \<Rightarrow> jsnum" where
  "js_div (Fin a) (Fin b) = (if b = 0 then inf_signed a else Fin (round64 (a / b)))"
| "js_div NaN _ = NaN"
| "js_div _ NaN = NaN"
| "js_div (Fin a) PInf = Fin 0"
| "js_div (Fin a) NInf = Fin 0"
| "js_div PInf (Fin b) = (if 0 \<le> b then PInf else NInf)"
| "js_div NInf (Fin b) = (if 0 \<le> b then NInf else PInf)"
| "js_div PInf PInf = NaN"
| "js_div PInf NInf = NaN"
| "js_div NInf PInf = NaN"
| "js_div NInf NInf = NaN"

text \<open>\<^verbatim>\<open>Math.floor\<close>\<close>

fun js_floor :: "jsnum \<Rightarrow> jsnum" where
  "js_floor (Fin a) = Fin (of_int \<lfloor>a\<rfloor>)"
| "js_floor x = x"

text \<open>\<^verbatim>\<open>Math.min\<close> of two arguments: NaN if either is NaN.\<close>

fun js_min :: "jsnum \<Rightarrow> jsnum \<Rightarrow> jsnum" where
  "js_min (Fin a) (Fin b) = Fin (min a b)"
| "js_min NaN _ = NaN"
| "js_min _ NaN = NaN"
| "js_min NInf _ = NInf"
| "js_min _ NInf = NInf"
| "js_min PInf y = y"
| "js_min x PInf = x"

text \<open>\<^verbatim>\<open>x < y\<close>: false whenever an operand is NaN.\<close>

fun js_lt :: "jsnum \<Rightarrow> jsnum \<Rightarrow> bool" where
  "js_lt (Fin a) (Fin b) = (a < b)"
| "js_lt NaN _ = False"
| "js_lt _ NaN = False"
| "js_lt _ NInf = False"
| "js_lt PInf _ = False"
| "js_lt NInf _ = True"
| "js_lt _ PInf = True"

text \<open>\<^verbatim>\<open>x >= y\<close>: false whenever an operand is NaN.\<close>

fun js_ge :: "jsnum \<Rightarrow> jsnum \<Rightarrow> bool" where
  "js_ge NaN _ = False"
| "js_ge _ NaN = False"
| "js_ge x y = (\<not> js_lt x y)"

text \<open>\<^verbatim>\<open>x || y\<close> on numbers: \<open>x\<close> when it is truthy (neither 0 nor NaN), else \<open>y\<close>.\<close>

definition js_truthy :: "jsnum \<Rightarrow> bool" where
  "js_truthy x = (x \<noteq> NaN \<and> x \<noteq> Fin 0)"

definition js_or :: "jsnum \<Rightarrow> jsnum \<Rightarrow> jsnum" where
  "js_or x y = (if js_truthy x then x else y)"

text \<open>
  \<^verbatim>\<open>s.split(':')\<close>: the segments between the colons; always at least one segment
  (the empty string splits into one empty segment).
\<close>

fun split_colon :: "string \<Rightarrow> string list" where
  "split_colon [] = [[]]"
| "split_colon (c # cs) =
     (if c = CHR '':'' then [] # split_colon cs
      else (case split_colon cs of
              [] \<Rightarrow> [[c]]
            | seg # segs \<Rightarrow> (c # seg) # segs))"

text \<open>
  The array destructuring \<^verbatim>\<open>const [a, b] = xs\<close> of an array of numbers. A missing
  element is \<^verbatim>\<open>undefined\<close>; every use of these variables is arithmetic or a
  comparison, where \<^verbatim>\<open>undefined\<close> converts to NaN, so the model reads NaN at once.
\<close>

definition element :: "jsnum list \<Rightarrow> nat \<Rightarrow> jsnum" where
  "element xs n = (if n < length xs then xs ! n else NaN)"

text \<open>The decimal rendering of a loop counter inside a template literal.\<close>

fun showNat :: "nat \<Rightarrow> string" where
  "showNat n =
     (if n < 10 then [''0123456789'' ! n]
      else showNat (n div 10) @ [''0123456789'' ! (n mod 10)])"

text \<open>
  The rendering of an integral Number (\<^verbatim>\<open>Math.floor(...)\<close>) inside a template literal,
  for magnitudes below \<^verbatim>\<open>1e21\<close> where JavaScript prints plain decimal digits.
\<close>

definition showInt :: "int \<Rightarrow> string" where
  "showInt k = (if k < 0 then CHR ''-'' # showNat (nat (- k)) else showNat (nat k))"

text \<open>\<^verbatim>\<open>s.charAt(k)\<close> for an integral index: the empty string out of range.\<close>

definition charAt :: "string \<Rightarrow> int \<Rightarrow> string" where
  "charAt s k = (if 0 \<le> k \<and> k < int (length s) then [s ! nat k] else [])"

section \<open>The environment and the module state\<close>

text \<open>
  What the module reads from its runtime is an explicit environment:
  \<^item> \<open>rnd n\<close> is the value of the \<open>n\<close>-th call of \<^verbatim>\<open>Math.random()\<close>;
  \<^item> \<open>perfNow n\<close> is the value of the \<open>n\<close>-th call of \<^verbatim>\<open>performance.now()\<close>;
  \<^item> \<open>isoNow\<close> is \<^verbatim>\<open>new Date().toISOString()\<close>;
  \<^item> \<open>toNumber\<close> is the built-in \<^verbatim>\<open>Number\<close> applied to a string.
\<close>

record env =
  rnd :: "nat \<Rightarrow> real"
  perfNow :: "nat \<Rightarrow> real"
  isoNow :: string
  toNumber :: "string \<Rightarrow> jsnum"

text \<open>The contract of \<^verbatim>\<open>Math.random()\<close>: every draw lies in \<open>[0, 1)\<close>.\<close>

definition randomOK :: "env \<Rightarrow> bool" where
  "randomOK e = (\<forall>n. 0 \<le> rnd e n \<and> rnd e n < 1)"

record latency_range =
  range_min :: real
  range_max :: real

record simulation_config =
  redisLatencyMs :: latency_range
  dbLatencyMs :: latency_range
  networkJitterMs :: latency_range

text \<open>The initial value of \<^verbatim>\<open>simulationConfig\<close>.\<close>

definition defaultSimulationConfig :: simulation_config where
  "defaultSimulationConfig =
     \<lparr> redisLatencyMs = \<lparr> range_min = 2, range_max = 15 \<rparr>,
       dbLatencyMs = \<lparr> range_min = 30, range_max = 200 \<rparr>,
       networkJitterMs = \<lparr> range_min = 0, range_max = 5 \<rparr> \<rparr>"

text \<open>
  The calls made on the two storage objects, in the order they are made. A \<^verbatim>\<open>set\<close>
  records its third argument when the tier takes one; a \<^verbatim>\<open>get\<close> records what it
  returned (\<open>None\<close> is \<^verbatim>\<open>null\<close>).
\<close>

datatype tier = Redis | Db

datatype call =
    SetCall tier string string "bool option"
  | GetCall tier string "string option"
  | ExistsCall tier string
  | DelCall tier string
  | SetCachedCall string bool
  | GetCachedStatusCall string
  | ClearCall tier

text \<open>
  The module-level state: the three \<^verbatim>\<open>Map\<close>s and \<^verbatim>\<open>simulationConfig\<close>, and the
  observable history of a run: how many random draws and clock readings were
  consumed, the delays passed to \<^verbatim>\<open>setTimeout\<close>, and the storage calls made.
\<close>

record world =
  redisStore :: "string \<rightharpoonup> string"
  dbStore :: "string \<rightharpoonup> string"
  redisCache :: "string \<rightharpoonup> string"
  simulationConfig :: simulation_config
  draws :: nat
  perfReads :: nat
  timeouts :: "real list"
  calls :: "call list"

definition initialWorld :: world where
  "initialWorld =
     \<lparr> redisStore = Map.empty, dbStore = Map.empty, redisCache = Map.empty,
       simulationConfig = defaultSimulationConfig,
       draws = 0, perfReads = 0, timeouts = [], calls = [] \<rparr>"



section \<open>The latency simulator\<close>

text \<open>
  \<^verbatim>\<open>simulateLatency(min, max)\<close>: one random draw, one timer of
  \<^verbatim>\<open>Math.random() * (max - min) + min\<close> milliseconds, a time and so computed
  exactly; the promise resolves with no value.
\<close>

definition simulateLatency :: "env \<Rightarrow> real \<Rightarrow> real \<Rightarrow> world \<Rightarrow> unit \<times> world" where
  "simulateLatency e lo hi w =
     (let latency = rnd e (draws w) * (hi - lo) + lo
      in ((), w\<lparr> draws := Suc (draws w), timeouts := timeouts w @ [latency] \<rparr>))"

section \<open>The cached tier (\<^verbatim>\<open>redis\<close>)\<close>

definition redis_set :: "env \<Rightarrow> string \<Rightarrow> string \<Rightarrow> bool option \<Rightarrow> world \<Rightarrow> bool \<times> world" where
  "redis_set e key val cachedArg w =
     (let cached = (case cachedArg of None \<Rightarrow> False | Some b \<Rightarrow> b);
          w1 = snd (simulateLatency e
                 (range_min (redisLatencyMs (simulationConfig w)))
                 (range_max (redisLatencyMs (simulationConfig w))) w);
          w2 = w1\<lparr> redisStore := (redisStore w1)(key \<mapsto> val) \<rparr>;
          w3 = (if cached then w2\<lparr> redisCache := (redisCache w2)(key \<mapsto> val) \<rparr>
                else if redisCache w2 key \<noteq> None
                     then w2\<lparr> redisCache := (redisCache w2)(key := None) \<rparr>
                else w2)
      in (True, w3\<lparr> calls := calls w3 @ [SetCall Redis key val cachedArg] \<rparr>))"

definition redis_get :: "env \<Rightarrow> string \<Rightarrow> world \<Rightarrow> string option \<times> world" where
  "redis_get e key w =
     (if redisCache w key \<noteq> None then
        (let w1 = snd (simulateLatency e
                   (range_min (networkJitterMs (simulationConfig w)))
                   (range_max (networkJitterMs (simulationConfig w))) w);
             r = redisCache w1 key
         in (r, w1\<lparr> calls := calls w1 @ [GetCall Redis key r] \<rparr>))
      else
        (let w1 = snd (simulateLatency e
                   (range_min (redisLatencyMs (simulationConfig w)))
                   (range_max (redisLatencyMs (simulationConfig w))) w);
             r = (if redisStore w1 key \<noteq> None then redisStore w1 key else None)
         in (r, w1\<lparr> calls := calls w1 @ [GetCall Redis key r] \<rparr>)))"

definition redis_exists :: "env \<Rightarrow> string \<Rightarrow> world \<Rightarrow> bool \<times> world" where
  "redis_exists e key w =
     (let w1 = snd (simulateLatency e
                 (range_min (networkJitterMs (simulationConfig w)))
                 (range_max (networkJitterMs (simulationConfig w))) w)
      in (redisStore w1 key \<noteq> None, w1\<lparr> calls := calls w1 @ [ExistsCall Redis key] \<rparr>))"

definition redis_del :: "env \<Rightarrow> string \<Rightarrow> world \<Rightarrow> bool \<times> world" where
  "redis_del e key w =
     (let w1 = snd (simulateLatency e
                 (range_min (redisLatencyMs (simulationConfig w)))
                 (range_max (redisLatencyMs (simulationConfig w))) w);
          hadKey = (redisStore w1 key \<noteq> None);
          w2 = w1\<lparr> redisStore := (redisStore w1)(key := None) \<rparr>;
          w3 = w2\<lparr> redisCache := (redisCache w2)(key := None) \<rparr>
      in (hadKey, w3\<lparr> calls := calls w3 @ [DelCall Redis key] \<rparr>))"

text \<open>
  \<^verbatim>\<open>setCached\<close> and \<^verbatim>\<open>getCachedStatus\<close> return \<^verbatim>\<open>false\<close> and \<^verbatim>\<open>null\<close> for a key
  the backing store does not hold; \<open>None\<close> is \<^verbatim>\<open>null\<close>.
\<close>

definition redis_setCached :: "env \<Rightarrow> string \<Rightarrow> bool option \<Rightarrow> world \<Rightarrow> bool \<times> world" where
  "redis_setCached e key cachedArg w =
     (let cached = (case cachedArg of None \<Rightarrow> True | Some b \<Rightarrow> b);
          w1 = snd (simulateLatency e
                 (range_min (networkJitterMs (simulationConfig w)))
                 (range_max (networkJitterMs (simulationConfig w))) w);
          w2 = w1\<lparr> calls := calls w1 @ [SetCachedCall key cached] \<rparr>
      in if redisStore w2 key = None then (False, w2)
         else if cached
              then (True, w2\<lparr> redisCache := (redisCache w2)(key := redisStore w2 key) \<rparr>)
         else (True, w2\<lparr> redisCache := (redisCache w2)(key := None) \<rparr>))"

definition redis_getCachedStatus :: "env \<Rightarrow> string \<Rightarrow> world \<Rightarrow> bool option \<times> world" where
  "redis_getCachedStatus e key w =
     (let w1 = snd (simulateLatency e
                 (range_min (networkJitterMs (simulationConfig w)))
                 (range_max (networkJitterMs (simulationConfig w))) w);
          w2 = w1\<lparr> calls := calls w1 @ [GetCachedStatusCall key] \<rparr>
      in if redisStore w2 key = None then (None, w2)
         else (Some (redisCache w2 key \<noteq> None), w2))"

definition redis_flushAll :: "env \<Rightarrow> world \<Rightarrow> bool \<times> world" where
  "redis_flushAll e w =
     (let w1 = snd (simulateLatency e
                 (range_min (redisLatencyMs (simulationConfig w)) * 2)
                 (range_max (redisLatencyMs (simulationConfig w)) * 2) w);
          w2 = w1\<lparr> redisStore := Map.empty \<rparr>;
          w3 = w2\<lparr> redisCache := Map.empty \<rparr>
      in (True, w3\<lparr> calls := calls w3 @ [ClearCall Redis] \<rparr>))"

section \<open>The uncached tier (\<^verbatim>\<open>db\<close>)\<close>

definition db_set :: "env \<Rightarrow> string \<Rightarrow> string \<Rightarrow> world \<Rightarrow> bool \<times> world" where
  "db_set e key val w =
     (let w1 = snd (simulateLatency e
                 (range_min (dbLatencyMs (simulationConfig w)))
                 (range_max (dbLatencyMs (simulationConfig w))) w);
          w2 = w1\<lparr> dbStore := (dbStore w1)(key \<mapsto> val) \<rparr>
      in (True, w2\<lparr> calls := calls w2 @ [SetCall Db key val None] \<rparr>))"

definition db_get :: "env \<Rightarrow> string \<Rightarrow> world \<Rightarrow> string option \<times> world" where
  "db_get e key w =
     (let w1 = snd (simulateLatency e
                 (range_min (dbLatencyMs (simulationConfig w)))
                 (range_max (dbLatencyMs (simulationConfig w))) w);
          r = (if dbStore w1 key \<noteq> None then dbStore w1 key else None)
      in (r, w1\<lparr> calls := calls w1 @ [GetCall Db key r] \<rparr>))"

definition db_exists :: "env \<Rightarrow> string \<Rightarrow> world \<Rightarrow> bool \<times> world" where
  "db_exists e key w =
     (let w1 = snd (simulateLatency e
                 (range_min (dbLatencyMs (simulationConfig w)) / 2)
                 (range_max (dbLatencyMs (simulationConfig w)) / 2) w)
      in (dbStore w1 key \<noteq> None, w1\<lparr> calls := calls w1 @ [ExistsCall Db key] \<rparr>))"

definition db_del :: "env \<Rightarrow> string \<Rightarrow> world \<Rightarrow> bool \<times> world" where
  "db_del e key w =
     (let w1 = snd (simulateLatency e
                 (range_min (dbLatencyMs (simulationConfig w)))
                 (range_max (dbLatencyMs (simulationConfig w))) w);
          hadKey = (dbStore w1 key \<noteq> None);
          w2 = w1\<lparr> dbStore := (dbStore w1)(key := None) \<rparr>
      in (hadKey, w2\<lparr> calls := calls w2 @ [DelCall Db key] \<rparr>))"

definition db_clear :: "env \<Rightarrow> world \<Rightarrow> bool \<times> world" where
  "db_clear e w =
     (let w1 = snd (simulateLatency e
                 (range_min (dbLatencyMs (simulationConfig w)) * 2)
                 (range_max (dbLatencyMs (simulationConfig w)) * 2) w);
          w2 = w1\<lparr> dbStore := Map.empty \<rparr>
      in (True, w2\<lparr> calls := calls w2 @ [ClearCall Db] \<rparr>))"

section \<open>The workload generator (\<^verbatim>\<open>runBenchmark\<close>)\<close>

text \<open>
  The configuration object. A field the caller left out is \<open>None\<close>; the
  destructuring at the head of \<^verbatim>\<open>runBenchmark\<close> then takes its default.
  \<open>requests\<close> and \<open>size\<close> are integers and the other fields are strings.
\<close>

record benchmark_config =
  cfg_type :: "string option"
  cfg_storage :: "string option"
  cfg_requests :: "int option"
  cfg_size :: "int option"
  cfg_ratio :: "string option"
  cfg_cachedRatio :: "string option"
  cfg_name :: "string option"

text \<open>
  The object \<^verbatim>\<open>runBenchmark\<close> returns. \<open>res_id\<close> keeps the random draw from which
  the source renders the identifier (\<^verbatim>\<open>toString(36).substring(2, 10)\<close>).
\<close>

record benchmark_result =
  res_id :: real
  res_name :: string
  res_type :: string
  res_storage :: string
  res_requests :: int
  res_size :: int
  res_ratio :: string
  res_cachedRatio :: string
  res_opsPerSecond :: jsnum
  res_duration :: real
  res_timestamp :: string

text \<open>
  How the promise of an \<^verbatim>\<open>async\<close> function settles. \<^verbatim>\<open>runBenchmark\<close> has no
  \<^verbatim>\<open>throw\<close>, and no call it awaits rejects, so its model only builds \<open>Resolved\<close>.
\<close>

datatype 'a promise = Rejected string | Resolved 'a

definition chars :: string where
  "chars = ''ABCDEFGHIJKLMNOPQRSTUVWXYZabcdefghijklmnopqrstuvwxyz0123456789''"

text \<open>The loop of \<^verbatim>\<open>generateValue(size)\<close>, from counter \<open>i\<close> and the string built so far.\<close>

function generateValueLoop :: "env \<Rightarrow> int \<Rightarrow> nat \<Rightarrow> string \<Rightarrow> world \<Rightarrow> string \<times> world" where
  "generateValueLoop e sizeN i result w =
     (if int i < sizeN
      then generateValueLoop e sizeN (Suc i)
             (result @ charAt chars \<lfloor>round64 (rnd e (draws w) * real (length chars))\<rfloor>)
             (w\<lparr> draws := Suc (draws w) \<rparr>)
      else (result, w))"
  by pat_completeness auto
termination
  by (relation "measure (\<lambda>(e, sizeN, i, result, w). nat sizeN - i)") auto

definition generateValue :: "env \<Rightarrow> int \<Rightarrow> world \<Rightarrow> string \<times> world" where
  "generateValue e sizeN w = generateValueLoop e sizeN 0 [] w"

text \<open>
  The write that the source repeats in all four of its writing loops: generate
  the value, then on the cached tier draw the cacheability and call
  \<^verbatim>\<open>set(key, value, isCached)\<close>, on the other tier call \<^verbatim>\<open>set(key, value)\<close>.
  \<^verbatim>\<open>storageImpl\<close> is \<^verbatim>\<open>redis\<close> exactly when \<^verbatim>\<open>storage === 'redis'\<close>.
\<close>

definition benchSet :: "env \<Rightarrow> string \<Rightarrow> int \<Rightarrow> jsnum \<Rightarrow> string \<Rightarrow> world \<Rightarrow> world" where
  "benchSet e storage sizeN cachedProbability key w =
     (let (val, w1) = generateValue e sizeN w
      in if storage = ''redis''
         then (let isCached = js_lt (Fin (rnd e (draws w1))) cachedProbability;
                   w2 = w1\<lparr> draws := Suc (draws w1) \<rparr>
               in snd (redis_set e key val (Some isCached) w2))
         else snd (db_set e key val w1))"

definition storageGet :: "env \<Rightarrow> string \<Rightarrow> string \<Rightarrow> world \<Rightarrow> string option \<times> world" where
  "storageGet e storage key w =
     (if storage = ''redis'' then redis_get e key w else db_get e key w)"

text \<open>The loop of the SET benchmark.\<close>

function setLoop :: "env \<Rightarrow> string \<Rightarrow> int \<Rightarrow> jsnum \<Rightarrow> int \<Rightarrow> nat \<Rightarrow> world \<Rightarrow> world" where
  "setLoop e storage sizeN cachedProbability requests i w =
     (if int i < requests
      then setLoop e storage sizeN cachedProbability requests (Suc i)
             (benchSet e storage sizeN cachedProbability (''benchmark:'' @ showNat i) w)
      else w)"
  by pat_completeness auto
termination
  by (relation "measure (\<lambda>(e, storage, sizeN, cp, requests, i, w). nat requests - i)") auto

text \<open>The two loops of the GET benchmark: populate the keys, then read them.\<close>

function populateLoop :: "env \<Rightarrow> string \<Rightarrow> int \<Rightarrow> jsnum \<Rightarrow> int \<Rightarrow> nat \<Rightarrow> world \<Rightarrow> world" where
  "populateLoop e storage sizeN cachedProbability requests i w =
     (if int i < requests
      then populateLoop e storage sizeN cachedProbability requests (Suc i)
             (benchSet e storage sizeN cachedProbability (''benchmark:get:'' @ showNat i) w)
      else w)"
  by pat_completeness auto
termination
  by (relation "measure (\<lambda>(e, storage, sizeN, cp, requests, i, w). nat requests - i)") auto

function getLoop :: "env \<Rightarrow> string \<Rightarrow> int \<Rightarrow> nat \<Rightarrow> world \<Rightarrow> world" where
  "getLoop e storage requests i w =
     (if int i < requests
      then getLoop e storage requests (Suc i)
             (snd (storageGet e storage (''benchmark:get:'' @ showNat i) w))
      else w)"
  by pat_completeness auto
termination
  by (relation "measure (\<lambda>(e, storage, requests, i, w). nat requests - i)") auto

text \<open>
  The pre-population loop of the MIXED benchmark; its bound
  \<^verbatim>\<open>Math.min(getOps, requests / 2)\<close> is evaluated at every test.
\<close>

function prepopulateLoop ::
  "env \<Rightarrow> string \<Rightarrow> int \<Rightarrow> jsnum \<Rightarrow> int \<Rightarrow> jsnum \<Rightarrow> nat \<Rightarrow> world \<Rightarrow> world" where
  "prepopulateLoop e storage sizeN cachedProbability requests getOps i w =
     (if js_lt (Fin (real i)) (js_min getOps (js_div (Fin (real_of_int requests)) (Fin 2)))
      then prepopulateLoop e storage sizeN cachedProbability requests getOps (Suc i)
             (benchSet e storage sizeN cachedProbability (''benchmark:mixed:'' @ showNat i) w)
      else w)"
  by pat_completeness auto
termination
proof (relation "measure (\<lambda>(e, storage, sizeN, cp, requests, getOps, i, w).
                            nat \<lceil>round64 (real_of_int requests / 2)\<rceil> - i)")
  show "wf (measure (\<lambda>(e, storage, sizeN, cp, requests, getOps, i, w).
                       nat \<lceil>round64 (real_of_int requests / 2)\<rceil> - i))"
    by simp
next
  fix e :: env and storage :: string and sizeN :: int and cachedProbability :: jsnum
    and requests :: int and getOps :: jsnum and i :: nat and w :: world
  assume lt: "js_lt (Fin (real i)) (js_min getOps (js_div (Fin (real_of_int requests)) (Fin 2)))"
  have "real i < round64 (real_of_int requests / 2)"
    using lt by (cases getOps) (auto split: if_splits)
  then have "i < nat \<lceil>round64 (real_of_int requests / 2)\<rceil>"
    by linarith
  then show "((e, storage, sizeN, cachedProbability, requests, getOps, Suc i,
               benchSet e storage sizeN cachedProbability (''benchmark:mixed:'' @ showNat i) w),
              (e, storage, sizeN, cachedProbability, requests, getOps, i, w))
             \<in> measure (\<lambda>(e, storage, sizeN, cp, requests, getOps, i, w).
                          nat \<lceil>round64 (real_of_int requests / 2)\<rceil> - i)"
    by simp
qed

text \<open>
  The choice of one mixed iteration,
  \<^verbatim>\<open>setCount < setOps && (getCount >= getOps || Math.random() < setRatio / (setRatio + getRatio))\<close>:
  the operators short-circuit, so the draw is made only when both tests before
  it leave the choice open.
\<close>

definition isSetOp ::
  "env \<Rightarrow> jsnum \<Rightarrow> jsnum \<Rightarrow> jsnum \<Rightarrow> jsnum \<Rightarrow> nat \<Rightarrow> nat \<Rightarrow> world \<Rightarrow> bool \<times> world" where
  "isSetOp e setRatio getRatio setOps getOps setCount getCount w =
     (if js_lt (Fin (real setCount)) setOps
      then (if js_ge (Fin (real getCount)) getOps then (True, w)
            else (js_lt (Fin (rnd e (draws w))) (js_div setRatio (js_add setRatio getRatio)),
                  w\<lparr> draws := Suc (draws w) \<rparr>))
      else (False, w))"

text \<open>The key of a mixed iteration: \<^verbatim>\<open>`benchmark:mixed:${Math.floor(Math.random() * requests)}`\<close>.\<close>

definition mixedKey :: "env \<Rightarrow> int \<Rightarrow> world \<Rightarrow> string \<times> world" where
  "mixedKey e requests w =
     (''benchmark:mixed:'' @ showInt \<lfloor>round64 (rnd e (draws w) * real_of_int requests)\<rfloor>,
      w\<lparr> draws := Suc (draws w) \<rparr>)"

text \<open>
  The main loop of the MIXED benchmark, from counter \<open>i\<close> and the running counts.
  It returns the final counts with the state.
\<close>

function mixedLoop ::
  "env \<Rightarrow> string \<Rightarrow> int \<Rightarrow> jsnum \<Rightarrow> int \<Rightarrow> jsnum \<Rightarrow> jsnum \<Rightarrow> jsnum \<Rightarrow> jsnum
     \<Rightarrow> nat \<Rightarrow> nat \<Rightarrow> nat \<Rightarrow> world \<Rightarrow> (nat \<times> nat) \<times> world" where
  "mixedLoop e storage sizeN cachedProbability requests setRatio getRatio setOps getOps
     i setCount getCount w =
     (if int i < requests
      then (let (isSet, w1) = isSetOp e setRatio getRatio setOps getOps setCount getCount w;
                (key, w2) = mixedKey e requests w1
            in if isSet
               then mixedLoop e storage sizeN cachedProbability requests setRatio getRatio
                      setOps getOps (Suc i) (Suc setCount) getCount
                      (benchSet e storage sizeN cachedProbability key w2)
               else mixedLoop e storage sizeN cachedProbability requests setRatio getRatio
                      setOps getOps (Suc i) setCount (Suc getCount)
                      (snd (storageGet e storage key w2)))
      else ((setCount, getCount), w))"
  by pat_completeness auto
termination
  by (relation "measure (\<lambda>(e, storage, sizeN, cp, requests, sr, gr, so, go, i, sc, gc, w).
                           nat requests - i)") auto

text \<open>
  The chain \<^verbatim>\<open>if (type === 'set') ... else if (type === 'get') ... else if (type === 'mixed') ...\<close>
  between the two clock readings of \<^verbatim>\<open>runBenchmark\<close>. It has no final \<^verbatim>\<open>else\<close>:
  any other \<^verbatim>\<open>type\<close> runs nothing. The running counts of the MIXED loop are
  local to it and dropped.
\<close>

definition benchmarkBody ::
  "env \<Rightarrow> string \<Rightarrow> string \<Rightarrow> int \<Rightarrow> jsnum \<Rightarrow> int \<Rightarrow> jsnum \<Rightarrow> jsnum \<Rightarrow> world \<Rightarrow> world" where
  "benchmarkBody e type storage sizeN cachedProbability requests setRatio getRatio w =
     (if type = ''set''
      then setLoop e storage sizeN cachedProbability requests 0 w
      else if type = ''get''
      then getLoop e storage requests 0
             (populateLoop e storage sizeN cachedProbability requests 0 w)
      else if type = ''mixed''
      then (let setOps = js_floor (js_mul (js_div setRatio (js_add setRatio getRatio))
                                     (Fin (real_of_int requests)));
                getOps = js_sub (Fin (real_of_int requests)) setOps
            in snd (mixedLoop e storage sizeN cachedProbability requests
                      setRatio getRatio setOps getOps 0 0 0
                      (prepopulateLoop e storage sizeN cachedProbability requests
                         getOps 0 w)))
      else w)"

text \<open>\<^verbatim>\<open>runBenchmark(config)\<close>.\<close>

definition runBenchmark ::
  "env \<Rightarrow> benchmark_config \<Rightarrow> world \<Rightarrow> benchmark_result promise \<times> world" where
  "runBenchmark e config w =
     (let type = (case cfg_type config of None \<Rightarrow> ''get'' | Some t \<Rightarrow> t);
          storage = (case cfg_storage config of None \<Rightarrow> ''redis'' | Some s \<Rightarrow> s);
          requests = (case cfg_requests config of None \<Rightarrow> 1000 | Some n \<Rightarrow> n);
          sizeN = (case cfg_size config of None \<Rightarrow> 3 | Some n \<Rightarrow> n);
          ratio = (case cfg_ratio config of None \<Rightarrow> ''1:1'' | Some r \<Rightarrow> r);
          cachedRatio = (case cfg_cachedRatio config of None \<Rightarrow> ''1:1'' | Some r \<Rightarrow> r);
          name = (case cfg_name config of None \<Rightarrow> ''Benchmark Run'' | Some n \<Rightarrow> n);
          ratioParts = map (toNumber e) (split_colon ratio);
          setRatio = element ratioParts 0;
          getRatio = element ratioParts 1;
          cachedParts = map (toNumber e) (split_colon cachedRatio);
          cachedPart = element cachedParts 0;
          uncachedPart = element cachedParts 1;
          cachedProbability = js_div cachedPart (js_or (js_add cachedPart uncachedPart) (Fin 1));
          startTime = perfNow e (perfReads w);
          w0 = w\<lparr> perfReads := Suc (perfReads w) \<rparr>;
          w1 = benchmarkBody e type storage sizeN cachedProbability requests setRatio getRatio w0;
          endTime = perfNow e (perfReads w1);
          w2 = w1\<lparr> perfReads := Suc (perfReads w1) \<rparr>;
          duration = (endTime - startTime) / 1000;
          opsPerSecond = js_div (Fin (real_of_int requests)) (Fin duration);
          idDraw = rnd e (draws w2);
          w3 = w2\<lparr> draws := Suc (draws w2) \<rparr>
      in (Resolved \<lparr> res_id = idDraw, res_name = name, res_type = type,
                     res_storage = storage, res_requests = requests, res_size = sizeN,
                     res_ratio = ratio,
                     res_cachedRatio = (if storage = ''redis'' then cachedRatio else ''0:1''),
                     res_opsPerSecond = opsPerSecond, res_duration = duration,
                     res_timestamp = isoNow e \<rparr>,
          w3))"

text \<open>What a settled promise resolved with.\<close>

fun settled :: "'a promise \<Rightarrow> 'a option" where
  "settled (Resolved r) = Some r"
| "settled (Rejected err) = None"

declare binade.simps [simp del] showNat.simps [simp del]
  generateValueLoop.simps [simp del] setLoop.simps [simp del]
  populateLoop.simps [simp del] getLoop.simps [simp del]
  prepopulateLoop.simps [simp del] mixedLoop.simps [simp del]

section \<open>Reading the history of calls\<close>

fun isSetCall :: "call \<Rightarrow> bool" where
  "isSetCall (SetCall t k v b) = True"
| "isSetCall c = False"

fun isGetCall :: "call \<Rightarrow> bool" where
  "isGetCall (GetCall t k r) = True"
| "isGetCall c = False"

fun callKey :: "call \<Rightarrow> string" where
  "callKey (SetCall t k v b) = k"
| "callKey (GetCall t k r) = k"
| "callKey (ExistsCall t k) = k"
| "callKey (DelCall t k) = k"
| "callKey (SetCachedCall k b) = k"
| "callKey (GetCachedStatusCall k) = k"
| "callKey (ClearCall t) = []"

text \<open>A \<^verbatim>\<open>get\<close> that returned a value, not \<^verbatim>\<open>null\<close>.\<close>

fun isFoundGet :: "call \<Rightarrow> bool" where
  "isFoundGet (GetCall t k (Some v)) = True"
| "isFoundGet c = False"

text \<open>The cacheability a call passed to \<^verbatim>\<open>redis.set\<close>; \<open>None\<close> for every other call.\<close>

fun cacheable :: "call \<Rightarrow> bool option" where
  "cacheable (SetCall Redis k v b) = b"
| "cacheable c = None"

text \<open>The storage object \<^verbatim>\<open>storageImpl\<close> and its backing \<^verbatim>\<open>Map\<close>.\<close>

definition tierOf :: "string \<Rightarrow> tier" where
  "tierOf storage = (if storage = ''redis'' then Redis else Db)"

definition backing :: "string \<Rightarrow> world \<Rightarrow> (string \<rightharpoonup> string)" where
  "backing storage w = (if storage = ''redis'' then redisStore w else dbStore w)"

text \<open>The second state has the calls of the first and then only calls that satisfy \<open>P\<close>.\<close>

definition appended :: "(call \<Rightarrow> bool) \<Rightarrow> world \<Rightarrow> world \<Rightarrow> bool" where
  "appended P a b = (\<exists>xs. calls b = calls a @ xs \<and> list_all P xs)"

section \<open>Sequences of operations on the cached tier\<close>

datatype redis_op =
    OpSet string string "bool option"
  | OpGet string
  | OpExists string
  | OpDel string
  | OpSetCached string "bool option"
  | OpGetCachedStatus string
  | OpFlushAll

fun applyOp :: "env \<Rightarrow> redis_op \<Rightarrow> world \<Rightarrow> world" where
  "applyOp e (OpSet key val cachedArg) w = snd (redis_set e key val cachedArg w)"
| "applyOp e (OpGet key) w = snd (redis_get e key w)"
| "applyOp e (OpExists key) w = snd (redis_exists e key w)"
| "applyOp e (OpDel key) w = snd (redis_del e key w)"
| "applyOp e (OpSetCached key cachedArg) w = snd (redis_setCached e key cachedArg w)"
| "applyOp e (OpGetCachedStatus key) w = snd (redis_getCachedStatus e key w)"
| "applyOp e OpFlushAll w = snd (redis_flushAll e w)"

fun applyOps :: "env \<Rightarrow> redis_op list \<Rightarrow> world \<Rightarrow> world" where
  "applyOps e [] w = w"
| "applyOps e (op # ops) w = applyOps e ops (applyOp e op w)"

section \<open>A concrete environment\<close>

text \<open>
  Every random draw is one half, the clock advances one second per reading, and
  \<^verbatim>\<open>Number\<close> is given on the two strings the examples parse.
\<close>

definition exampleEnv :: env where
  "exampleEnv =
     \<lparr> rnd = (\<lambda>n. 1 / 2), perfNow = (\<lambda>n. real n * 1000),
       isoNow = ''2025-01-01T00:00:00.000Z'',
       toNumber = (\<lambda>s. if s = ''1'' then Fin 1 else if s = ''0'' then Fin 0 else NaN) \<rparr>"



definition exampleConfig :: benchmark_config where
  "exampleConfig =
     \<lparr> cfg_type = Some ''set'', cfg_storage = Some ''redis'', cfg_requests = Some 2,
       cfg_size = Some 1, cfg_ratio = Some ''1:1'', cfg_cachedRatio = Some ''1:0'',
       cfg_name = None \<rparr>"

definition dbConfig :: benchmark_config where
  "dbConfig = exampleConfig\<lparr> cfg_storage := Some ''db'' \<rparr>"

definition getConfig :: benchmark_config where
  "getConfig = exampleConfig\<lparr> cfg_type := Some ''get'' \<rparr>"





section \<open>Rounding to binary64\<close>

lemma round_half_even_of_int: "round_half_even (of_int k) = k"
  by (simp add: round_half_even_def)



lemma binade_bounds:
  assumes "0 < x"
  shows "2 powr of_int \<lfloor>log 2 x\<rfloor> \<le> x" "x < 2 powr of_int (\<lfloor>log 2 x\<rfloor> + 1)"
  using floor_log_eq_powr_iff[of x 2 "\<lfloor>log 2 x\<rfloor>"] assms by simp_all

lemma binade_log: "0 < x \<Longrightarrow> binade x = \<lfloor>log 2 x\<rfloor>"
proof (induction x rule: binade.induct)
  case (1 x)
  show ?case
  proof (cases "2 \<le> x")
    case True
    then have "binade x = binade (x / 2) + 1"
      using "1.prems" by (subst binade.simps) simp
    also have "binade (x / 2) = \<lfloor>log 2 (x / 2)\<rfloor>"
      using "1.IH"(1) "1.prems" True by simp
    also have "log 2 (x / 2) = log 2 x - 1"
      using "1.prems" by (simp add: log_divide)
    finally show ?thesis by simp
  next
    case False
    show ?thesis
    proof (cases "x < 1")
      case True
      then have "binade x = binade (x * 2) - 1"
        using "1.prems" False by (subst binade.simps) simp
      also have "binade (x * 2) = \<lfloor>log 2 (x * 2)\<rfloor>"
        using "1.IH"(2) "1.prems" False True by simp
      also have "log 2 (x * 2) = log 2 x + 1"
        using "1.prems" by (simp add: log_mult)
      finally show ?thesis by simp
    next
      case ge: False
      then have b: "binade x = 0"
        using "1.prems" False by (subst binade.simps) simp
      have "2 powr of_int 0 \<le> x \<and> x < 2 powr of_int (0 + 1)"
        using ge False by simp
      then have "\<lfloor>log 2 x\<rfloor> = 0"
        using floor_log_eq_powr_iff[of x 2 0] "1.prems" by simp
      with b show ?thesis by simp
    qed
  qed
qed

lemma pow2_powr: "pow2 e = 2 powr of_int e"
  by (simp add: pow2_def powr_real_of_int inverse_eq_divide)

lemma round64_pos_eq:
  "0 < x \<Longrightarrow>
   round64 x = of_int (round_half_even (x / 2 powr of_int (\<lfloor>log 2 x\<rfloor> - 52)))
                 * 2 powr of_int (\<lfloor>log 2 x\<rfloor> - 52)"
  by (simp add: round64_def Let_def binade_log pow2_powr)


lemma round64_0 [simp]: "round64 0 = 0"
  by (simp add: round64_def)






text \<open>Integers below \<open>2^53\<close> are binary64 values.\<close>

lemma round64_of_nat:
  assumes "n < 2 ^ 53"
  shows "round64 (real n) = real n"
proof (cases "n = 0")
  case True
  then show ?thesis by simp
next
  case False
  then have x: "0 < real n" by simp
  let ?e = "\<lfloor>log 2 (real n)\<rfloor>"
  have "2 powr of_int ?e \<le> real n" by (rule binade_bounds(1)[OF x])
  also have "real n < 2 powr 53" using assms
    by (metis of_nat_less_iff of_nat_numeral of_nat_power powr_numeral zero_le_numeral)
  finally have lt: "2 powr of_int ?e < (2::real) powr 53" .
  have "of_int ?e < (53::real)"
    by (rule powr_less_cancel[OF lt]) simp
  then have e: "?e \<le> 52" by linarith
  define k where "k = nat (52 - ?e)"
  have "?e - 52 = - int k"
    using e unfolding k_def by simp
  then have "(2::real) powr of_int (?e - 52) = 2 powr (- real k)"
    by simp
  also have "\<dots> = 1 / 2 ^ k"
    by (simp add: powr_minus_divide powr_realpow)
  finally have s: "2 powr of_int (?e - 52) = 1 / (2::real) ^ k" .
  have "real n / (1 / 2 ^ k) = of_int (int n * 2 ^ k)" by simp
  then have r: "round_half_even (real n / (1 / 2 ^ k)) = int n * 2 ^ k"
    by (simp only: round_half_even_of_int)
  have "round64 (real n) = of_int (int n * 2 ^ k) * (1 / 2 ^ k)"
    unfolding round64_pos_eq[OF x] s r by (rule refl)
  then show ?thesis
    by simp
qed

lemma round64_numeral [simp]:
  "(numeral w :: nat) < 2 ^ 53 \<Longrightarrow> round64 (numeral w) = numeral w"
  using round64_of_nat[of "numeral w"] by simp

lemma round64_1 [simp]: "round64 1 = 1"
  using round64_of_nat[of 1] by simp





section \<open>Properties of the storage tiers and of the latency simulator\<close>





text \<open>
  C5. \<^verbatim>\<open>redis.get(key)\<close>: when the hot cache holds the key, the call returns the
  hot-cache value and requests one delay, drawn from the jitter range; when it
  does not, the call requests one delay drawn from the cached-tier range and
  returns the entry of the backing store, \<^verbatim>\<open>null\<close> when there is none.
\<close>

theorem redis_get_hit_or_miss:
  fixes e :: env and key :: string and w :: world
  defines "jitter \<equiv> networkJitterMs (simulationConfig w)"
    and "full \<equiv> redisLatencyMs (simulationConfig w)"
    and "u \<equiv> rnd e (draws w)"
  shows "(redisCache w key \<noteq> None \<longrightarrow>
            fst (redis_get e key w) = redisCache w key \<and>
            timeouts (snd (redis_get e key w))
              = timeouts w @ [u * (range_max jitter - range_min jitter) + range_min jitter]) \<and>
         (redisCache w key = None \<longrightarrow>
            fst (redis_get e key w) = redisStore w key \<and>
            timeouts (snd (redis_get e key w))
              = timeouts w @ [u * (range_max full - range_min full) + range_min full])"
  by (simp add: redis_get_def simulateLatency_def Let_def jitter_def full_def u_def)

theorem redis_get_hit_or_miss_witness:
  "redisCache (snd (redis_set exampleEnv ''k'' ''v'' (Some True) initialWorld)) ''k'' \<noteq> None \<and>
   fst (redis_get exampleEnv ''k''
          (snd (redis_set exampleEnv ''k'' ''v'' (Some True) initialWorld))) = Some ''v'' \<and>
   timeouts (snd (redis_get exampleEnv ''k''
          (snd (redis_set exampleEnv ''k'' ''v'' (Some True) initialWorld)))) = [17 / 2, 5 / 2] \<and>
   redisCache initialWorld ''k'' = None \<and>
   fst (redis_get exampleEnv ''k'' initialWorld) = None \<and>
   timeouts (snd (redis_get exampleEnv ''k'' initialWorld)) = [17 / 2]"
  using redis_get_hit_or_miss[of "snd (redis_set exampleEnv ''k'' ''v'' (Some True) initialWorld)"
          "''k''" exampleEnv]
        redis_get_hit_or_miss[of initialWorld "''k''" exampleEnv]
  by (simp add: redis_set_def simulateLatency_def exampleEnv_def initialWorld_def
        defaultSimulationConfig_def Let_def)

lemma map_le_applyOp:
  assumes "redisCache w \<subseteq>\<^sub>m redisStore w"
  shows "redisCache (applyOp e op w) \<subseteq>\<^sub>m redisStore (applyOp e op w)"
  using assms
  by (cases op)
     (auto simp: map_le_def redis_set_def redis_get_def redis_exists_def redis_del_def
        redis_setCached_def redis_getCachedStatus_def redis_flushAll_def simulateLatency_def
        Let_def dom_def split: option.splits if_splits)

lemma map_le_applyOps:
  "redisCache w \<subseteq>\<^sub>m redisStore w \<Longrightarrow>
   redisCache (applyOps e ops w) \<subseteq>\<^sub>m redisStore (applyOps e ops w)"
  by (induction ops arbitrary: w) (simp_all add: map_le_applyOp)

text \<open>
  C10. From empty stores, after any sequence of \<^verbatim>\<open>set\<close>, \<^verbatim>\<open>get\<close>, \<^verbatim>\<open>exists\<close>,
  \<^verbatim>\<open>del\<close>, \<^verbatim>\<open>setCached\<close>, \<^verbatim>\<open>getCachedStatus\<close> and \<^verbatim>\<open>flushAll\<close> on the cached
  tier, every key of the hot cache is a key of the backing store with the same
  value. A \<^verbatim>\<open>set\<close> whose cacheability is false or left out removes the key from
  the hot cache, \<^verbatim>\<open>del\<close> removes the key from both maps, and \<^verbatim>\<open>flushAll\<close>
  empties both.
\<close>

theorem hot_cache_included_in_backing_store:
  assumes "redisStore w = Map.empty" and "redisCache w = Map.empty"
  shows "(\<forall>k v. redisCache (applyOps e ops w) k = Some v
                 \<longrightarrow> redisStore (applyOps e ops w) k = Some v) \<and>
         (\<forall>a k v. redisCache (snd (redis_set e k v (Some False) a)) k = None \<and>
                  redisCache (snd (redis_set e k v None a)) k = None) \<and>
         (\<forall>a k. redisStore (snd (redis_del e k a)) k = None \<and>
                redisCache (snd (redis_del e k a)) k = None) \<and>
         (\<forall>a. redisStore (snd (redis_flushAll e a)) = Map.empty \<and>
              redisCache (snd (redis_flushAll e a)) = Map.empty)"
proof -
  have "redisCache w \<subseteq>\<^sub>m redisStore w"
    using assms by simp
  then have le: "redisCache (applyOps e ops w) \<subseteq>\<^sub>m redisStore (applyOps e ops w)"
    by (rule map_le_applyOps)
  have inv: "\<forall>k v. redisCache (applyOps e ops w) k = Some v
                   \<longrightarrow> redisStore (applyOps e ops w) k = Some v"
  proof (intro allI impI)
    fix k v
    assume c: "redisCache (applyOps e ops w) k = Some v"
    then have "k \<in> dom (redisCache (applyOps e ops w))" by blast
    with le c show "redisStore (applyOps e ops w) k = Some v"
      by (metis map_le_def)
  qed
  have evict: "\<forall>a k v. redisCache (snd (redis_set e k v (Some False) a)) k = None \<and>
                       redisCache (snd (redis_set e k v None a)) k = None"
    by (simp add: redis_set_def simulateLatency_def Let_def)
  have del: "\<forall>a k. redisStore (snd (redis_del e k a)) k = None \<and>
                   redisCache (snd (redis_del e k a)) k = None"
    by (simp add: redis_del_def simulateLatency_def Let_def)
  have flush: "\<forall>a. redisStore (snd (redis_flushAll e a)) = Map.empty \<and>
                   redisCache (snd (redis_flushAll e a)) = Map.empty"
    by (simp add: redis_flushAll_def simulateLatency_def Let_def)
  from inv evict del flush show ?thesis by blast
qed

theorem hot_cache_included_in_backing_store_witness:
  "redisStore initialWorld = Map.empty \<and> redisCache initialWorld = Map.empty \<and>
   redisCache (applyOps exampleEnv
      [OpSet ''k'' ''v'' (Some True), OpSet ''j'' ''u'' None, OpSetCached ''j'' None, OpDel ''k'']
      initialWorld) ''j'' = Some ''u'' \<and>
   redisStore (applyOps exampleEnv
      [OpSet ''k'' ''v'' (Some True), OpSet ''j'' ''u'' None, OpSetCached ''j'' None, OpDel ''k'']
      initialWorld) ''j'' = Some ''u''"
proof -
  let ?ops = "[OpSet ''k'' ''v'' (Some True), OpSet ''j'' ''u'' None,
               OpSetCached ''j'' None, OpDel ''k'']"
  have empty: "redisStore initialWorld = Map.empty" "redisCache initialWorld = Map.empty"
    by (simp_all add: initialWorld_def)
  have cached: "redisCache (applyOps exampleEnv ?ops initialWorld) ''j'' = Some ''u''"
    by (simp add: redis_set_def redis_setCached_def redis_del_def simulateLatency_def
          initialWorld_def Let_def)
  from hot_cache_included_in_backing_store[OF empty, of exampleEnv ?ops] cached
  have "redisStore (applyOps exampleEnv ?ops initialWorld) ''j'' = Some ''u''"
    by blast
  with empty cached show ?thesis by simp
qed

section \<open>Steps and loops of the workload generator\<close>

lemma generateValueLoop_snd:
  "snd (generateValueLoop e sizeN i result w) = w\<lparr> draws := draws w + (nat sizeN - i) \<rparr>"
proof (induction e sizeN i result w rule: generateValueLoop.induct)
  case (1 e sizeN i result w)
  show ?case
  proof (cases "int i < sizeN")
    case True
    then have "Suc (nat sizeN - Suc i) = nat sizeN - i" by linarith
    with True 1 show ?thesis
      by (subst generateValueLoop.simps) simp
  next
    case False
    then have "nat sizeN - i = 0" by linarith
    with False show ?thesis
      by (subst generateValueLoop.simps) simp
  qed
qed

lemma generateValue_snd:
  "snd (generateValue e sizeN w) = w\<lparr> draws := draws w + nat sizeN \<rparr>"
  by (simp add: generateValue_def generateValueLoop_snd)

lemma benchSet_redis:
  "benchSet e ''redis'' sizeN cp key w =
     snd (redis_set e key (fst (generateValue e sizeN w))
            (Some (js_lt (Fin (rnd e (draws w + nat sizeN))) cp))
            (w\<lparr> draws := Suc (draws w + nat sizeN) \<rparr>))"
  using generateValue_snd[of e sizeN w]
  by (cases "generateValue e sizeN w") (simp add: benchSet_def Let_def)

lemma benchSet_db:
  "storage \<noteq> ''redis'' \<Longrightarrow>
   benchSet e storage sizeN cp key w =
     snd (db_set e key (fst (generateValue e sizeN w)) (w\<lparr> draws := draws w + nat sizeN \<rparr>))"
  using generateValue_snd[of e sizeN w]
  by (cases "generateValue e sizeN w") (simp add: benchSet_def Let_def)

lemma calls_benchSet:
  "calls (benchSet e storage sizeN cp key w) =
     calls w @ [SetCall (tierOf storage) key (fst (generateValue e sizeN w))
                  (if storage = ''redis''
                   then Some (js_lt (Fin (rnd e (draws w + nat sizeN))) cp) else None)]"
  by (cases "storage = ''redis''")
     (simp_all add: benchSet_redis benchSet_db tierOf_def redis_set_def db_set_def
        simulateLatency_def Let_def)


lemma backing_benchSet:
  "backing storage (benchSet e storage sizeN cp key w) =
     (backing storage w)(key \<mapsto> fst (generateValue e sizeN w))"
  by (cases "storage = ''redis''")
     (simp_all add: benchSet_redis benchSet_db backing_def redis_set_def db_set_def
        simulateLatency_def Let_def)

lemma calls_storageGet:
  "calls (snd (storageGet e storage key w)) =
     calls w @ [GetCall (tierOf storage) key (fst (storageGet e storage key w))]"
  by (simp add: storageGet_def tierOf_def redis_get_def db_get_def simulateLatency_def Let_def)


lemma stores_storageGet:
  "redisStore (snd (storageGet e storage key w)) = redisStore w"
  "dbStore (snd (storageGet e storage key w)) = dbStore w"
  "redisCache (snd (storageGet e storage key w)) = redisCache w"
  by (simp_all add: storageGet_def redis_get_def db_get_def simulateLatency_def Let_def)

lemma storageGet_found:
  "backing storage w key \<noteq> None \<Longrightarrow> fst (storageGet e storage key w) \<noteq> None"
  by (cases "storage = ''redis''"; cases "redisCache w key")
     (simp_all add: storageGet_def backing_def redis_get_def db_get_def simulateLatency_def Let_def)

lemma isSetOp_snd:
  "snd (isSetOp e sr gr so go sc gc w) = w \<or>
   snd (isSetOp e sr gr so go sc gc w) = w\<lparr> draws := Suc (draws w) \<rparr>"
  by (simp add: isSetOp_def)

lemma mixedKey_snd: "snd (mixedKey e requests w) = w\<lparr> draws := Suc (draws w) \<rparr>"
  by (simp add: mixedKey_def)

text \<open>
  A relation between states that every step of a loop establishes, and that is
  reflexive and transitive, holds between the state before and after the loop.
\<close>

lemma setLoop_rel:
  assumes "\<And>a. R a a" and "\<And>a b c. R a b \<Longrightarrow> R b c \<Longrightarrow> R a c"
    and "\<And>k a. R a (benchSet e storage sizeN cp k a)"
  shows "R w (setLoop e storage sizeN cp requests i w)"
  using assms
proof (induction e storage sizeN cp requests i w rule: setLoop.induct)
  case (1 e storage sizeN cp requests i w)
  show ?case
  proof (cases "int i < requests")
    case True
    let ?w1 = "benchSet e storage sizeN cp (''benchmark:'' @ showNat i) w"
    have step: "R w ?w1" by (rule "1.prems"(3))
    have rest: "R ?w1 (setLoop e storage sizeN cp requests (Suc i) ?w1)"
      by (rule "1.IH"[OF True "1.prems"])
    have "R w (setLoop e storage sizeN cp requests (Suc i) ?w1)"
      by (rule "1.prems"(2)[OF step rest])
    with True show ?thesis
      by (subst setLoop.simps) simp
  next
    case False
    with "1.prems"(1) show ?thesis by (subst setLoop.simps) simp
  qed
qed

lemma populateLoop_rel:
  assumes "\<And>a. R a a" and "\<And>a b c. R a b \<Longrightarrow> R b c \<Longrightarrow> R a c"
    and "\<And>k a. R a (benchSet e storage sizeN cp k a)"
  shows "R w (populateLoop e storage sizeN cp requests i w)"
  using assms
proof (induction e storage sizeN cp requests i w rule: populateLoop.induct)
  case (1 e storage sizeN cp requests i w)
  show ?case
  proof (cases "int i < requests")
    case True
    let ?w1 = "benchSet e storage sizeN cp (''benchmark:get:'' @ showNat i) w"
    have step: "R w ?w1" by (rule "1.prems"(3))
    have rest: "R ?w1 (populateLoop e storage sizeN cp requests (Suc i) ?w1)"
      by (rule "1.IH"[OF True "1.prems"])
    have "R w (populateLoop e storage sizeN cp requests (Suc i) ?w1)"
      by (rule "1.prems"(2)[OF step rest])
    with True show ?thesis
      by (subst populateLoop.simps) simp
  next
    case False
    with "1.prems"(1) show ?thesis by (subst populateLoop.simps) simp
  qed
qed

lemma getLoop_rel:
  assumes "\<And>a. R a a" and "\<And>a b c. R a b \<Longrightarrow> R b c \<Longrightarrow> R a c"
    and "\<And>k a. R a (snd (storageGet e storage k a))"
  shows "R w (getLoop e storage requests i w)"
  using assms
proof (induction e storage requests i w rule: getLoop.induct)
  case (1 e storage requests i w)
  show ?case
  proof (cases "int i < requests")
    case True
    let ?w1 = "snd (storageGet e storage (''benchmark:get:'' @ showNat i) w)"
    have step: "R w ?w1" by (rule "1.prems"(3))
    have rest: "R ?w1 (getLoop e storage requests (Suc i) ?w1)"
      by (rule "1.IH"[OF True "1.prems"])
    have "R w (getLoop e storage requests (Suc i) ?w1)"
      by (rule "1.prems"(2)[OF step rest])
    with True show ?thesis
      by (subst getLoop.simps) simp
  next
    case False
    with "1.prems"(1) show ?thesis by (subst getLoop.simps) simp
  qed
qed

lemma prepopulateLoop_rel:
  assumes "\<And>a. R a a" and "\<And>a b c. R a b \<Longrightarrow> R b c \<Longrightarrow> R a c"
    and "\<And>k a. R a (benchSet e storage sizeN cp k a)"
  shows "R w (prepopulateLoop e storage sizeN cp requests getOps i w)"
  using assms
proof (induction e storage sizeN cp requests getOps i w rule: prepopulateLoop.induct)
  case (1 e storage sizeN cp requests getOps i w)
  let ?go = "js_lt (Fin (real i)) (js_min getOps (js_div (Fin (real_of_int requests)) (Fin 2)))"
  show ?case
  proof (cases ?go)
    case True
    let ?w1 = "benchSet e storage sizeN cp (''benchmark:mixed:'' @ showNat i) w"
    have step: "R w ?w1" by (rule "1.prems"(3))
    have rest: "R ?w1 (prepopulateLoop e storage sizeN cp requests getOps (Suc i) ?w1)"
      by (rule "1.IH"[OF True "1.prems"])
    have "R w (prepopulateLoop e storage sizeN cp requests getOps (Suc i) ?w1)"
      by (rule "1.prems"(2)[OF step rest])
    with True show ?thesis
      by (subst prepopulateLoop.simps) simp
  next
    case False
    with "1.prems"(1) show ?thesis by (subst prepopulateLoop.simps) simp
  qed
qed

lemma mixedLoop_rel:
  assumes "\<And>a. R a a" and "\<And>a b c. R a b \<Longrightarrow> R b c \<Longrightarrow> R a c"
    and "\<And>a n. R a (a\<lparr> draws := n \<rparr>)"
    and "\<And>k a. R a (benchSet e storage sizeN cp k a)"
    and "\<And>k a. R a (snd (storageGet e storage k a))"
  shows "R w (snd (mixedLoop e storage sizeN cp requests sr gr so go i sc gc w))"
  using assms
proof (induction e storage sizeN cp requests sr gr so go i sc gc w rule: mixedLoop.induct)
  case (1 e storage sizeN cp requests sr gr so go i sc gc w)
  show ?case
  proof (cases "int i < requests")
    case True
    obtain isSet w1 where c: "isSetOp e sr gr so go sc gc w = (isSet, w1)"
      by (cases "isSetOp e sr gr so go sc gc w")
    obtain key w2 where k: "mixedKey e requests w1 = (key, w2)"
      by (cases "mixedKey e requests w1")
    have "w1 = w \<or> w1 = w\<lparr> draws := Suc (draws w) \<rparr>"
      using isSetOp_snd[of e sr gr so go sc gc w] c by simp
    then have r1: "R w w1"
      using "1.prems"(1,3) by auto
    have "w2 = w1\<lparr> draws := Suc (draws w1) \<rparr>"
      using mixedKey_snd[of e requests w1] k by simp
    then have "R w1 w2"
      using "1.prems"(3) by simp
    with r1 have r2: "R w w2"
      by (rule "1.prems"(2))
    show ?thesis
    proof (cases isSet)
      case True
      let ?w3 = "benchSet e storage sizeN cp key w2"
      have "R w2 ?w3" by (rule "1.prems"(4))
      with r2 have r3: "R w ?w3" by (rule "1.prems"(2))
      have "R ?w3 (snd (mixedLoop e storage sizeN cp requests sr gr so go (Suc i) (Suc sc) gc ?w3))"
        by (rule "1.IH"(1)[OF \<open>int i < requests\<close> c[symmetric] refl k[symmetric] refl True "1.prems"])
      with r3 have "R w (snd (mixedLoop e storage sizeN cp requests sr gr so go (Suc i) (Suc sc) gc ?w3))"
        by (rule "1.prems"(2))
      with \<open>int i < requests\<close> c k True show ?thesis
        by (subst mixedLoop.simps) simp
    next
      case False
      let ?w3 = "snd (storageGet e storage key w2)"
      have "R w2 ?w3" by (rule "1.prems"(5))
      with r2 have r3: "R w ?w3" by (rule "1.prems"(2))
      have "R ?w3 (snd (mixedLoop e storage sizeN cp requests sr gr so go (Suc i) sc (Suc gc) ?w3))"
        by (rule "1.IH"(2)[OF \<open>int i < requests\<close> c[symmetric] refl k[symmetric] refl False "1.prems"])
      with r3 have "R w (snd (mixedLoop e storage sizeN cp requests sr gr so go (Suc i) sc (Suc gc) ?w3))"
        by (rule "1.prems"(2))
      with \<open>int i < requests\<close> c k False show ?thesis
        by (subst mixedLoop.simps) simp
    qed
  next
    case False
    with "1.prems"(1) show ?thesis by (subst mixedLoop.simps) simp
  qed
qed

section \<open>The run as a whole\<close>

lemma benchmarkBody_rel:
  assumes "\<And>a. R a a" and "\<And>a b c. R a b \<Longrightarrow> R b c \<Longrightarrow> R a c"
    and "\<And>a n. R a (a\<lparr> draws := n \<rparr>)"
    and "\<And>k a. R a (benchSet e storage sizeN cp k a)"
    and "\<And>k a. R a (snd (storageGet e storage k a))"
  shows "R w (benchmarkBody e type storage sizeN cp requests sr gr w)"
proof -
  have s: "R w (setLoop e storage sizeN cp requests 0 w)"
    by (rule setLoop_rel[where R = R, OF assms(1,2,4)])
  have p: "R w (populateLoop e storage sizeN cp requests 0 w)"
    by (rule populateLoop_rel[where R = R, OF assms(1,2,4)])
  have g: "\<And>a. R a (getLoop e storage requests 0 a)"
    by (rule getLoop_rel[where R = R, OF assms(1,2,5)])
  have pp: "\<And>go. R w (prepopulateLoop e storage sizeN cp requests go 0 w)"
    by (rule prepopulateLoop_rel[where R = R, OF assms(1,2,4)])
  have m: "\<And>so go a. R a (snd (mixedLoop e storage sizeN cp requests sr gr so go 0 0 0 a))"
    by (rule mixedLoop_rel[where R = R, OF assms])
  show ?thesis
    unfolding benchmarkBody_def Let_def
    using assms(1) s assms(2)[OF p g] assms(2)[OF pp m] by simp
qed



text \<open>
  C8. The result echoes the configuration: \<open>requests\<close>, \<open>size\<close> and \<open>storage\<close> are
  the configured values, \<open>cachedRatio\<close> is the configured one on the cached tier
  and is \<^verbatim>\<open>'0:1'\<close> whenever \<open>storage\<close> is not \<^verbatim>\<open>'redis'\<close>.
\<close>

theorem runBenchmark_echoes_config:
  "\<exists>r. fst (runBenchmark e config w) = Resolved r \<and>
       (\<forall>n. cfg_requests config = Some n \<longrightarrow> res_requests r = n) \<and>
       (\<forall>n. cfg_size config = Some n \<longrightarrow> res_size r = n) \<and>
       (\<forall>s. cfg_storage config = Some s \<longrightarrow> res_storage r = s) \<and>
       (\<forall>c. cfg_cachedRatio config = Some c \<and> res_storage r = ''redis''
             \<longrightarrow> res_cachedRatio r = c) \<and>
       (res_storage r \<noteq> ''redis'' \<longrightarrow> res_cachedRatio r = ''0:1'')"
  by (simp add: runBenchmark_def Let_def)

theorem runBenchmark_echoes_config_witness:
  "cfg_requests dbConfig = Some 2 \<and> cfg_size dbConfig = Some 1 \<and>
   cfg_storage dbConfig = Some ''db'' \<and> cfg_cachedRatio dbConfig = Some ''1:0'' \<and>
   map_option res_requests (settled (fst (runBenchmark exampleEnv dbConfig initialWorld))) = Some 2 \<and>
   map_option res_size (settled (fst (runBenchmark exampleEnv dbConfig initialWorld))) = Some 1 \<and>
   map_option res_cachedRatio (settled (fst (runBenchmark exampleEnv dbConfig initialWorld)))
     = Some ''0:1''"
proof -
  have c: "cfg_requests dbConfig = Some 2" "cfg_size dbConfig = Some 1"
    "cfg_storage dbConfig = Some ''db''" "cfg_cachedRatio dbConfig = Some ''1:0''"
    by (simp_all add: dbConfig_def exampleConfig_def)
  from runBenchmark_echoes_config[of exampleEnv dbConfig initialWorld] c
  obtain r where "fst (runBenchmark exampleEnv dbConfig initialWorld) = Resolved r"
    and "res_requests r = 2" and "res_size r = 1" and "res_cachedRatio r = ''0:1''"
    by auto
  with c show ?thesis by simp
qed







lemma appended_refl: "appended P a a"
  by (simp add: appended_def)

lemma appended_trans: "appended P a b \<Longrightarrow> appended P b c \<Longrightarrow> appended P a c"
  by (auto simp: appended_def)

lemma appended_draws: "appended P a (a\<lparr> draws := n \<rparr>)"
  by (simp add: appended_def)

lemma appended_storageGet:
  assumes "\<And>r. P (GetCall (tierOf storage) k r)"
  shows "appended P a (snd (storageGet e storage k a))"
  using assms by (simp add: appended_def calls_storageGet)

lemma appended_benchSet:
  assumes "P (SetCall (tierOf storage) k (fst (generateValue e sizeN a))
                  (if storage = ''redis''
                   then Some (js_lt (Fin (rnd e (draws a + nat sizeN))) cp) else None))"
  shows "appended P a (benchSet e storage sizeN cp k a)"
  using assms by (simp add: appended_def calls_benchSet)

lemma appended_benchmarkBody:
  assumes "\<And>k r. P (GetCall (tierOf storage) k r)"
    and "\<And>k v u. 0 \<le> u \<Longrightarrow> u < 1 \<Longrightarrow> P (SetCall (tierOf storage) k v
                  (if storage = ''redis'' then Some (js_lt (Fin u) cp) else None))"
    and "randomOK e"
  shows "appended P w (benchmarkBody e type storage sizeN cp requests sr gr w)"
proof (rule benchmarkBody_rel[where R = "appended P"])
  show "\<And>a. appended P a a" by (rule appended_refl)
  show "\<And>a b c. appended P a b \<Longrightarrow> appended P b c \<Longrightarrow> appended P a c" by (rule appended_trans)
  show "\<And>a n. appended P a (a\<lparr> draws := n \<rparr>)" by (rule appended_draws)
  show "\<And>k a. appended P a (snd (storageGet e storage k a))"
    by (rule appended_storageGet) (rule assms(1))
  show "\<And>k a. appended P a (benchSet e storage sizeN cp k a)"
  proof (rule appended_benchSet)
    fix k :: string and a :: world
    have "0 \<le> rnd e (draws a + nat sizeN)" "rnd e (draws a + nat sizeN) < 1"
      using assms(3) by (simp_all add: randomOK_def)
    then show "P (SetCall (tierOf storage) k (fst (generateValue e sizeN a))
                  (if storage = ''redis''
                   then Some (js_lt (Fin (rnd e (draws a + nat sizeN))) cp) else None))"
      by (rule assms(2))
  qed
qed

lemma calls_runBenchmark:
  "\<exists>cp sr gr.
     calls (snd (runBenchmark e config w)) =
       calls (benchmarkBody e (case cfg_type config of None \<Rightarrow> ''get'' | Some t \<Rightarrow> t)
                (case cfg_storage config of None \<Rightarrow> ''redis'' | Some s \<Rightarrow> s)
                (case cfg_size config of None \<Rightarrow> 3 | Some n \<Rightarrow> n) cp
                (case cfg_requests config of None \<Rightarrow> 1000 | Some n \<Rightarrow> n) sr gr
                (w\<lparr> perfReads := Suc (perfReads w) \<rparr>))"
  by (auto simp: runBenchmark_def Let_def)


lemma calls_runBenchmark_explicit:
  "calls (snd (runBenchmark e config w)) =
     calls (benchmarkBody e (case cfg_type config of None \<Rightarrow> ''get'' | Some t \<Rightarrow> t)
              (case cfg_storage config of None \<Rightarrow> ''redis'' | Some s \<Rightarrow> s)
              (case cfg_size config of None \<Rightarrow> 3 | Some n \<Rightarrow> n)
              (js_div (element (map (toNumber e) (split_colon
                          (case cfg_cachedRatio config of None \<Rightarrow> ''1:1'' | Some r \<Rightarrow> r))) 0)
                 (js_or (js_add
                     (element (map (toNumber e) (split_colon
                          (case cfg_cachedRatio config of None \<Rightarrow> ''1:1'' | Some r \<Rightarrow> r))) 0)
                     (element (map (toNumber e) (split_colon
                          (case cfg_cachedRatio config of None \<Rightarrow> ''1:1'' | Some r \<Rightarrow> r))) 1))
                   (Fin 1)))
              (case cfg_requests config of None \<Rightarrow> 1000 | Some n \<Rightarrow> n)
              (element (map (toNumber e) (split_colon
                          (case cfg_ratio config of None \<Rightarrow> ''1:1'' | Some r \<Rightarrow> r))) 0)
              (element (map (toNumber e) (split_colon
                          (case cfg_ratio config of None \<Rightarrow> ''1:1'' | Some r \<Rightarrow> r))) 1)
              (w\<lparr> perfReads := Suc (perfReads w) \<rparr>))"
  by (simp add: runBenchmark_def Let_def)

text \<open>
  C6. On the cached tier, with random draws in \<open>[0, 1)\<close> and \<^verbatim>\<open>Number\<close> reading
  \<^verbatim>\<open>'1'\<close> as 1 and \<^verbatim>\<open>'0'\<close> as 0: with \<open>cachedRatio\<close> \<^verbatim>\<open>'1:0'\<close> every write of
  the run passes cacheability \<^verbatim>\<open>true\<close>, and with \<^verbatim>\<open>'0:1'\<close> every write passes
  \<^verbatim>\<open>false\<close>, whatever the draws are.
\<close>

theorem cacheability_all_or_nothing:
  fixes e :: env and config :: benchmark_config and w :: world
  defines "storage \<equiv> (case cfg_storage config of None \<Rightarrow> ''redis'' | Some s \<Rightarrow> s)"
    and "cachedRatio \<equiv> (case cfg_cachedRatio config of None \<Rightarrow> ''1:1'' | Some r \<Rightarrow> r)"
  assumes "randomOK e" and "toNumber e ''1'' = Fin 1" and "toNumber e ''0'' = Fin 0"
    and "storage = ''redis''"
  shows "(cachedRatio = ''1:0'' \<longrightarrow>
            (\<exists>xs. calls (snd (runBenchmark e config w)) = calls w @ xs \<and>
                  (\<forall>c \<in> set xs. isSetCall c \<longrightarrow> cacheable c = Some True))) \<and>
         (cachedRatio = ''0:1'' \<longrightarrow>
            (\<exists>xs. calls (snd (runBenchmark e config w)) = calls w @ xs \<and>
                  (\<forall>c \<in> set xs. isSetCall c \<longrightarrow> cacheable c = Some False)))"
proof -
  let ?w0 = "w\<lparr> perfReads := Suc (perfReads w) \<rparr>"
  have all: "\<exists>xs. calls (snd (runBenchmark e config w)) = calls w @ xs \<and>
                  (\<forall>c \<in> set xs. isSetCall c \<longrightarrow> cacheable c = Some True)"
    if r: "cachedRatio = ''1:0''"
  proof -
    have cp: "js_div (element (map (toNumber e) (split_colon cachedRatio)) 0)
                 (js_or (js_add (element (map (toNumber e) (split_colon cachedRatio)) 0)
                                (element (map (toNumber e) (split_colon cachedRatio)) 1))
                   (Fin 1)) = Fin 1"
      by (simp add: r assms(4,5) element_def js_or_def js_truthy_def)
    have "appended (\<lambda>c. isSetCall c \<longrightarrow> cacheable c = Some True) ?w0
            (benchmarkBody e (case cfg_type config of None \<Rightarrow> ''get'' | Some t \<Rightarrow> t)
               ''redis'' (case cfg_size config of None \<Rightarrow> 3 | Some n \<Rightarrow> n) (Fin 1)
               (case cfg_requests config of None \<Rightarrow> 1000 | Some n \<Rightarrow> n)
               (element (map (toNumber e) (split_colon
                          (case cfg_ratio config of None \<Rightarrow> ''1:1'' | Some r \<Rightarrow> r))) 0)
               (element (map (toNumber e) (split_colon
                          (case cfg_ratio config of None \<Rightarrow> ''1:1'' | Some r \<Rightarrow> r))) 1) ?w0)"
      by (rule appended_benchmarkBody) (simp_all add: tierOf_def assms(3))
    then show ?thesis
      using cp assms(6)
      by (simp add: calls_runBenchmark_explicit appended_def list_all_iff
            storage_def[symmetric] cachedRatio_def[symmetric])
  qed
  have none: "\<exists>xs. calls (snd (runBenchmark e config w)) = calls w @ xs \<and>
                  (\<forall>c \<in> set xs. isSetCall c \<longrightarrow> cacheable c = Some False)"
    if r: "cachedRatio = ''0:1''"
  proof -
    have cp: "js_div (element (map (toNumber e) (split_colon cachedRatio)) 0)
                 (js_or (js_add (element (map (toNumber e) (split_colon cachedRatio)) 0)
                                (element (map (toNumber e) (split_colon cachedRatio)) 1))
                   (Fin 1)) = Fin 0"
      by (simp add: r assms(4,5) element_def js_or_def js_truthy_def)
    have "appended (\<lambda>c. isSetCall c \<longrightarrow> cacheable c = Some False) ?w0
            (benchmarkBody e (case cfg_type config of None \<Rightarrow> ''get'' | Some t \<Rightarrow> t)
               ''redis'' (case cfg_size config of None \<Rightarrow> 3 | Some n \<Rightarrow> n) (Fin 0)
               (case cfg_requests config of None \<Rightarrow> 1000 | Some n \<Rightarrow> n)
               (element (map (toNumber e) (split_colon
                          (case cfg_ratio config of None \<Rightarrow> ''1:1'' | Some r \<Rightarrow> r))) 0)
               (element (map (toNumber e) (split_colon
                          (case cfg_ratio config of None \<Rightarrow> ''1:1'' | Some r \<Rightarrow> r))) 1) ?w0)"
      by (rule appended_benchmarkBody) (simp_all add: tierOf_def assms(3))
    then show ?thesis
      using cp assms(6)
      by (simp add: calls_runBenchmark_explicit appended_def list_all_iff
            storage_def[symmetric] cachedRatio_def[symmetric])
  qed
  from all none show ?thesis by blast
qed

theorem cacheability_all_or_nothing_witness:
  "randomOK exampleEnv \<and> toNumber exampleEnv ''1'' = Fin 1 \<and> toNumber exampleEnv ''0'' = Fin 0 \<and>
   cfg_storage exampleConfig = Some ''redis'' \<and> cfg_cachedRatio exampleConfig = Some ''1:0'' \<and>
   map cacheable (calls (snd (runBenchmark exampleEnv exampleConfig initialWorld)))
     = [Some True, Some True]"
proof -
  have h: "randomOK exampleEnv" "toNumber exampleEnv ''1'' = Fin 1"
    "toNumber exampleEnv ''0'' = Fin 0"
    "(case cfg_storage exampleConfig of None \<Rightarrow> ''redis'' | Some s \<Rightarrow> s) = ''redis''"
    by (simp_all add: randomOK_def exampleEnv_def exampleConfig_def)
  have c: "cfg_storage exampleConfig = Some ''redis''"
    "cfg_cachedRatio exampleConfig = Some ''1:0''"
    by (simp_all add: exampleConfig_def)
  have run: "calls (snd (runBenchmark exampleEnv exampleConfig initialWorld)) =
     [SetCall Redis ''benchmark:0'' ''f'' (Some True),
      SetCall Redis ''benchmark:1'' ''f'' (Some True)]"
    by (simp add: runBenchmark_def Let_def exampleConfig_def exampleEnv_def initialWorld_def
          benchmarkBody_def setLoop.simps benchSet_def generateValue_def generateValueLoop.simps
          redis_set_def simulateLatency_def element_def js_or_def js_truthy_def showNat.simps
          charAt_def chars_def)
  from cacheability_all_or_nothing[where e = exampleEnv and config = exampleConfig
         and w = initialWorld, OF h] c
  obtain xs where "calls (snd (runBenchmark exampleEnv exampleConfig initialWorld))
                     = calls initialWorld @ xs"
    and "\<forall>c \<in> set xs. isSetCall c \<longrightarrow> cacheable c = Some True"
    by auto
  then have "\<forall>c \<in> set (calls (snd (runBenchmark exampleEnv exampleConfig initialWorld))).
               isSetCall c \<longrightarrow> cacheable c = Some True"
    by (simp add: initialWorld_def)
  then have "map cacheable (calls (snd (runBenchmark exampleEnv exampleConfig initialWorld)))
               = [Some True, Some True]"
    by (simp add: run)
  with h c show ?thesis by simp
qed

section \<open>The calls of the SET and GET benchmarks\<close>

lemma setLoop_calls:
  "\<exists>xs. calls (setLoop e storage sizeN cp requests i w) = calls w @ xs \<and>
        list_all isSetCall xs \<and>
        map callKey xs = map (\<lambda>j. ''benchmark:'' @ showNat j) [i..<nat requests]"
proof (induction e storage sizeN cp requests i w rule: setLoop.induct)
  case (1 e storage sizeN cp requests i w)
  show ?case
  proof (cases "int i < requests")
    case True
    let ?w1 = "benchSet e storage sizeN cp (''benchmark:'' @ showNat i) w"
    from "1.IH"[OF True] obtain xs where
      xs: "calls (setLoop e storage sizeN cp requests (Suc i) ?w1) = calls ?w1 @ xs"
        "list_all isSetCall xs"
        "map callKey xs = map (\<lambda>j. ''benchmark:'' @ showNat j) [Suc i..<nat requests]"
      by blast
    from True have "i < nat requests" by linarith
    then have upt: "[i..<nat requests] = i # [Suc i..<nat requests]"
      by (rule upt_conv_Cons)
    have "setLoop e storage sizeN cp requests i w = setLoop e storage sizeN cp requests (Suc i) ?w1"
      using True by (subst setLoop.simps) simp
    with xs upt show ?thesis
      by (simp add: calls_benchSet)
  next
    case False
    then have "[i..<nat requests] = []" by simp
    moreover have "setLoop e storage sizeN cp requests i w = w"
      using False by (subst setLoop.simps) simp
    ultimately show ?thesis by simp
  qed
qed

lemma populateLoop_calls:
  "\<exists>xs. calls (populateLoop e storage sizeN cp requests i w) = calls w @ xs \<and>
        list_all isSetCall xs \<and>
        map callKey xs = map (\<lambda>j. ''benchmark:get:'' @ showNat j) [i..<nat requests]"
proof (induction e storage sizeN cp requests i w rule: populateLoop.induct)
  case (1 e storage sizeN cp requests i w)
  show ?case
  proof (cases "int i < requests")
    case True
    let ?w1 = "benchSet e storage sizeN cp (''benchmark:get:'' @ showNat i) w"
    from "1.IH"[OF True] obtain xs where
      xs: "calls (populateLoop e storage sizeN cp requests (Suc i) ?w1) = calls ?w1 @ xs"
        "list_all isSetCall xs"
        "map callKey xs = map (\<lambda>j. ''benchmark:get:'' @ showNat j) [Suc i..<nat requests]"
      by blast
    from True have "i < nat requests" by linarith
    then have upt: "[i..<nat requests] = i # [Suc i..<nat requests]"
      by (rule upt_conv_Cons)
    have "populateLoop e storage sizeN cp requests i w
            = populateLoop e storage sizeN cp requests (Suc i) ?w1"
      using True by (subst populateLoop.simps) simp
    with xs upt show ?thesis
      by (simp add: calls_benchSet)
  next
    case False
    then have "[i..<nat requests] = []" by simp
    moreover have "populateLoop e storage sizeN cp requests i w = w"
      using False by (subst populateLoop.simps) simp
    ultimately show ?thesis by simp
  qed
qed

text \<open>The writing loops only add keys to the backing map of their tier.\<close>

lemma populateLoop_keeps_keys:
  "backing storage w k \<noteq> None \<Longrightarrow>
   backing storage (populateLoop e storage sizeN cp requests i w) k \<noteq> None"
proof -
  have "backing storage w k \<noteq> None \<longrightarrow>
        backing storage (populateLoop e storage sizeN cp requests i w) k \<noteq> None"
    by (rule populateLoop_rel[where R = "\<lambda>a b. backing storage a k \<noteq> None
                                               \<longrightarrow> backing storage b k \<noteq> None"])
       (simp_all add: backing_benchSet)
  then show "backing storage w k \<noteq> None \<Longrightarrow>
    backing storage (populateLoop e storage sizeN cp requests i w) k \<noteq> None"
    by simp
qed

lemma populateLoop_backing:
  "i \<le> j \<Longrightarrow> int j < requests \<Longrightarrow>
   backing storage (populateLoop e storage sizeN cp requests i w)
     (''benchmark:get:'' @ showNat j) \<noteq> None"
proof (induction e storage sizeN cp requests i w rule: populateLoop.induct)
  case (1 e storage sizeN cp requests i w)
  let ?w1 = "benchSet e storage sizeN cp (''benchmark:get:'' @ showNat i) w"
  from "1.prems" have lt: "int i < requests" by linarith
  have unfold: "populateLoop e storage sizeN cp requests i w
                  = populateLoop e storage sizeN cp requests (Suc i) ?w1"
    using lt by (subst populateLoop.simps) simp
  show ?case
  proof (cases "j = i")
    case True
    have "backing storage ?w1 (''benchmark:get:'' @ showNat i) \<noteq> None"
      by (simp add: backing_benchSet)
    then show ?thesis
      unfolding unfold True by (rule populateLoop_keeps_keys)
  next
    case False
    with "1.prems" have "Suc i \<le> j" by simp
    from "1.IH"[OF lt this "1.prems"(2)] show ?thesis
      unfolding unfold .
  qed
qed

lemma backing_storageGet:
  "backing storage (snd (storageGet e storage' key w)) = backing storage w"
  by (simp add: backing_def stores_storageGet)

lemma getLoop_calls:
  assumes "\<forall>j. i \<le> j \<and> int j < requests
             \<longrightarrow> backing storage w (''benchmark:get:'' @ showNat j) \<noteq> None"
  shows "\<exists>ys. calls (getLoop e storage requests i w) = calls w @ ys \<and>
        list_all isFoundGet ys \<and>
        map callKey ys = map (\<lambda>j. ''benchmark:get:'' @ showNat j) [i..<nat requests]"
  using assms
proof (induction e storage requests i w rule: getLoop.induct)
  case (1 e storage requests i w)
  show ?case
  proof (cases "int i < requests")
    case True
    let ?k = "''benchmark:get:'' @ showNat i"
    let ?w1 = "snd (storageGet e storage ?k w)"
    have pres: "\<forall>j. Suc i \<le> j \<and> int j < requests
             \<longrightarrow> backing storage ?w1 (''benchmark:get:'' @ showNat j) \<noteq> None"
      using "1.prems" by (simp add: backing_storageGet)
    from "1.IH"[OF True pres] obtain ys where
      ys: "calls (getLoop e storage requests (Suc i) ?w1) = calls ?w1 @ ys"
        "list_all isFoundGet ys"
        "map callKey ys = map (\<lambda>j. ''benchmark:get:'' @ showNat j) [Suc i..<nat requests]"
      by blast
    have "backing storage w ?k \<noteq> None"
      using "1.prems" True by simp
    then have "fst (storageGet e storage ?k w) \<noteq> None"
      by (rule storageGet_found)
    then obtain v where v: "fst (storageGet e storage ?k w) = Some v"
      by blast
    from True have "i < nat requests" by linarith
    then have upt: "[i..<nat requests] = i # [Suc i..<nat requests]"
      by (rule upt_conv_Cons)
    have "getLoop e storage requests i w = getLoop e storage requests (Suc i) ?w1"
      using True by (subst getLoop.simps) simp
    with ys upt v show ?thesis
      by (simp add: calls_storageGet)
  next
    case False
    then have "[i..<nat requests] = []" by simp
    moreover have "getLoop e storage requests i w = w"
      using False by (subst getLoop.simps) simp
    ultimately show ?thesis by simp
  qed
qed

lemma get_run_calls:
  "\<exists>sets gets.
     calls (benchmarkBody e ''get'' storage sizeN cp requests sr gr w) = calls w @ sets @ gets \<and>
     list_all isSetCall sets \<and> list_all isFoundGet gets \<and>
     map callKey sets = map (\<lambda>j. ''benchmark:get:'' @ showNat j) [0..<nat requests] \<and>
     map callKey gets = map (\<lambda>j. ''benchmark:get:'' @ showNat j) [0..<nat requests]"
proof -
  let ?w1 = "populateLoop e storage sizeN cp requests 0 w"
  obtain sets where sets: "calls ?w1 = calls w @ sets" "list_all isSetCall sets"
    "map callKey sets = map (\<lambda>j. ''benchmark:get:'' @ showNat j) [0..<nat requests]"
    using populateLoop_calls[of e storage sizeN cp requests 0 w] by blast
  have "\<forall>j. 0 \<le> j \<and> int j < requests
             \<longrightarrow> backing storage ?w1 (''benchmark:get:'' @ showNat j) \<noteq> None"
    using populateLoop_backing[where i = 0] by blast
  from getLoop_calls[OF this, of e]
  obtain gets where gets: "calls (getLoop e storage requests 0 ?w1) = calls ?w1 @ gets"
    "list_all isFoundGet gets"
    "map callKey gets = map (\<lambda>j. ''benchmark:get:'' @ showNat j) [0..<nat requests]"
    by blast
  have "calls (benchmarkBody e ''get'' storage sizeN cp requests sr gr w) = calls w @ sets @ gets"
    using sets(1) gets(1) by (simp add: benchmarkBody_def)
  with sets(2,3) gets(2,3) show ?thesis
    by blast
qed


lemma set_run_calls:
  "\<exists>xs. calls (benchmarkBody e ''set'' storage sizeN cp requests sr gr w) = calls w @ xs \<and>
        list_all isSetCall xs \<and>
        map callKey xs = map (\<lambda>j. ''benchmark:'' @ showNat j) [0..<nat requests]"
  using setLoop_calls[of e storage sizeN cp requests 0 w] by (simp add: benchmarkBody_def)

lemma isFoundGet_isGetCall: "list_all isFoundGet xs \<Longrightarrow> list_all isGetCall xs"
proof (induction xs)
  case Nil
  show ?case by simp
next
  case (Cons c cs)
  then have "isFoundGet c" and "list_all isGetCall cs" by simp_all
  moreover from \<open>isFoundGet c\<close> have "isGetCall c"
    by (cases c rule: isFoundGet.cases) simp_all
  ultimately show ?case by simp
qed

text \<open>
  C4. A GET run with \<open>requests = N\<close> makes exactly \<open>N\<close> \<^verbatim>\<open>set\<close> calls and then
  exactly \<open>N\<close> \<^verbatim>\<open>get\<close> calls; the reads use the keys of the writes in the same
  order, and every read returns a value, none \<^verbatim>\<open>null\<close>.
\<close>

theorem get_run_populates_then_reads:
  fixes e :: env and config :: benchmark_config and w :: world
  defines "requests \<equiv> (case cfg_requests config of None \<Rightarrow> 1000 | Some n \<Rightarrow> n)"
  assumes "(case cfg_type config of None \<Rightarrow> ''get'' | Some t \<Rightarrow> t) = ''get''"
  shows "\<exists>sets gets.
           calls (snd (runBenchmark e config w)) = calls w @ sets @ gets \<and>
           length sets = nat requests \<and> length gets = nat requests \<and>
           list_all isSetCall sets \<and> list_all isGetCall gets \<and>
           map callKey gets = map callKey sets \<and>
           list_all isFoundGet gets"
proof -
  let ?w0 = "w\<lparr> perfReads := Suc (perfReads w) \<rparr>"
  obtain cp sr gr where run: "calls (snd (runBenchmark e config w)) =
       calls (benchmarkBody e ''get''
                (case cfg_storage config of None \<Rightarrow> ''redis'' | Some s \<Rightarrow> s)
                (case cfg_size config of None \<Rightarrow> 3 | Some n \<Rightarrow> n) cp requests sr gr ?w0)"
    using calls_runBenchmark[of e config w] assms(2) unfolding requests_def by auto
  obtain sets gets where
    c: "calls (snd (runBenchmark e config w)) = calls ?w0 @ sets @ gets"
    and s: "list_all isSetCall sets"
      "map callKey sets = map (\<lambda>j. ''benchmark:get:'' @ showNat j) [0..<nat requests]"
    and g: "list_all isFoundGet gets"
      "map callKey gets = map (\<lambda>j. ''benchmark:get:'' @ showNat j) [0..<nat requests]"
    unfolding run using get_run_calls by blast
  have ls: "length sets = nat requests"
    using arg_cong[OF s(2), of length] by simp
  have lg: "length gets = nat requests"
    using arg_cong[OF g(2), of length] by simp
  have "calls (snd (runBenchmark e config w)) = calls w @ sets @ gets"
    using c by simp
  with ls lg s g isFoundGet_isGetCall[OF g(1)] show ?thesis
    by (intro exI[of _ sets] exI[of _ gets]) simp
qed

theorem get_run_populates_then_reads_witness:
  "cfg_type getConfig = Some ''get'' \<and> cfg_requests getConfig = Some 2 \<and>
   length (calls (snd (runBenchmark exampleEnv getConfig initialWorld))) = 4 \<and>
   calls (snd (runBenchmark exampleEnv getConfig initialWorld)) =
     [SetCall Redis ''benchmark:get:0'' ''f'' (Some True),
      SetCall Redis ''benchmark:get:1'' ''f'' (Some True),
      GetCall Redis ''benchmark:get:0'' (Some ''f''),
      GetCall Redis ''benchmark:get:1'' (Some ''f'')]"
proof -
  have c: "cfg_type getConfig = Some ''get''" "cfg_requests getConfig = Some 2"
    by (simp_all add: getConfig_def exampleConfig_def)
  from get_run_populates_then_reads[where e = exampleEnv and config = getConfig
         and w = initialWorld] c
  obtain sets gets where
    "calls (snd (runBenchmark exampleEnv getConfig initialWorld))
       = calls initialWorld @ sets @ gets"
    and "length sets = 2" and "length gets = 2"
    by auto
  then have len: "length (calls (snd (runBenchmark exampleEnv getConfig initialWorld))) = 4"
    by (simp add: initialWorld_def)
  have run: "calls (snd (runBenchmark exampleEnv getConfig initialWorld)) =
     [SetCall Redis ''benchmark:get:0'' ''f'' (Some True),
      SetCall Redis ''benchmark:get:1'' ''f'' (Some True),
      GetCall Redis ''benchmark:get:0'' (Some ''f''),
      GetCall Redis ''benchmark:get:1'' (Some ''f'')]"
    by (simp add: runBenchmark_def Let_def getConfig_def exampleConfig_def exampleEnv_def
          initialWorld_def benchmarkBody_def populateLoop.simps getLoop.simps benchSet_def
          generateValue_def generateValueLoop.simps storageGet_def redis_set_def redis_get_def
          simulateLatency_def element_def js_or_def js_truthy_def showNat.simps
          charAt_def chars_def)
  from c len run show ?thesis by simp
qed

text \<open>
  C7, as the code has it. A SET run with \<open>requests = N\<close> writes the keys
  \<^verbatim>\<open>benchmark:<i>\<close> for \<open>i = 0, ..., N - 1\<close> in this order; the population phase
  of a GET run writes the keys \<^verbatim>\<open>benchmark:get:<i>\<close> for the same \<open>i\<close>.
\<close>

theorem benchmark_key_scheme:
  fixes e :: env and config :: benchmark_config and w :: world
  defines "type \<equiv> (case cfg_type config of None \<Rightarrow> ''get'' | Some t \<Rightarrow> t)"
    and "requests \<equiv> (case cfg_requests config of None \<Rightarrow> 1000 | Some n \<Rightarrow> n)"
  shows "(type = ''set'' \<longrightarrow>
            (\<exists>xs. calls (snd (runBenchmark e config w)) = calls w @ xs \<and>
                  list_all isSetCall xs \<and>
                  map callKey xs = map (\<lambda>i. ''benchmark:'' @ showNat i) [0..<nat requests])) \<and>
         (type = ''get'' \<longrightarrow>
            (\<exists>sets gets. calls (snd (runBenchmark e config w)) = calls w @ sets @ gets \<and>
                  list_all isSetCall sets \<and> list_all isGetCall gets \<and>
                  map callKey sets
                    = map (\<lambda>i. ''benchmark:get:'' @ showNat i) [0..<nat requests]))"
proof -
  let ?w0 = "w\<lparr> perfReads := Suc (perfReads w) \<rparr>"
  obtain cp sr gr where run: "calls (snd (runBenchmark e config w)) =
       calls (benchmarkBody e type
                (case cfg_storage config of None \<Rightarrow> ''redis'' | Some s \<Rightarrow> s)
                (case cfg_size config of None \<Rightarrow> 3 | Some n \<Rightarrow> n) cp requests sr gr ?w0)"
    using calls_runBenchmark[of e config w] unfolding type_def requests_def by auto
  have w0: "calls ?w0 = calls w" by simp
  have a: "\<exists>xs. calls (snd (runBenchmark e config w)) = calls w @ xs \<and>
                  list_all isSetCall xs \<and>
                  map callKey xs = map (\<lambda>i. ''benchmark:'' @ showNat i) [0..<nat requests]"
    if "type = ''set''"
  proof -
    have "calls (snd (runBenchmark e config w)) =
       calls (benchmarkBody e ''set''
                (case cfg_storage config of None \<Rightarrow> ''redis'' | Some s \<Rightarrow> s)
                (case cfg_size config of None \<Rightarrow> 3 | Some n \<Rightarrow> n) cp requests sr gr ?w0)"
      using run that by simp
    then show ?thesis
      using set_run_calls[of e _ _ cp requests sr gr ?w0] by simp
  qed
  have b: "\<exists>sets gets. calls (snd (runBenchmark e config w)) = calls w @ sets @ gets \<and>
                  list_all isSetCall sets \<and> list_all isGetCall gets \<and>
                  map callKey sets
                    = map (\<lambda>i. ''benchmark:get:'' @ showNat i) [0..<nat requests]"
    if "type = ''get''"
  proof -
    have run': "calls (snd (runBenchmark e config w)) =
       calls (benchmarkBody e ''get''
                (case cfg_storage config of None \<Rightarrow> ''redis'' | Some s \<Rightarrow> s)
                (case cfg_size config of None \<Rightarrow> 3 | Some n \<Rightarrow> n) cp requests sr gr ?w0)"
      using run that by simp
    obtain sets gets where
      c: "calls (snd (runBenchmark e config w)) = calls ?w0 @ sets @ gets"
      and s: "list_all isSetCall sets"
        "map callKey sets = map (\<lambda>j. ''benchmark:get:'' @ showNat j) [0..<nat requests]"
      and g: "list_all isFoundGet gets"
      unfolding run' using get_run_calls by blast
    from c have "calls (snd (runBenchmark e config w)) = calls w @ sets @ gets" by simp
    with s isFoundGet_isGetCall[OF g] show ?thesis by blast
  qed
  from a b show ?thesis by blast
qed

theorem benchmark_key_scheme_witness:
  "cfg_type exampleConfig = Some ''set'' \<and> cfg_requests exampleConfig = Some 2 \<and>
   map callKey (calls (snd (runBenchmark exampleEnv exampleConfig initialWorld)))
     = [''benchmark:0'', ''benchmark:1'']"
proof -
  have c: "cfg_type exampleConfig = Some ''set''" "cfg_requests exampleConfig = Some 2"
    by (simp_all add: exampleConfig_def)
  from benchmark_key_scheme[where e = exampleEnv and config = exampleConfig
         and w = initialWorld] c
  obtain xs where "calls (snd (runBenchmark exampleEnv exampleConfig initialWorld))
                     = calls initialWorld @ xs"
    and "map callKey xs = map (\<lambda>i. ''benchmark:'' @ showNat i) [0..<nat 2]"
    by auto
  then have "map callKey (calls (snd (runBenchmark exampleEnv exampleConfig initialWorld)))
               = [''benchmark:0'', ''benchmark:1'']"
    by (simp add: initialWorld_def numeral_2_eq_2 showNat.simps)
  with c show ?thesis by simp
qed

text \<open>
  C7 as stated fails: the two writes of a GET run with \<open>requests = 2\<close> use the
  keys \<^verbatim>\<open>benchmark:get:0\<close> and \<^verbatim>\<open>benchmark:get:1\<close>, not the keys of a SET run.
\<close>

theorem get_population_keys_counterexample:
  "map callKey (take 2 (calls (snd (runBenchmark exampleEnv getConfig initialWorld))))
     = [''benchmark:get:0'', ''benchmark:get:1''] \<and>
   map callKey (take 2 (calls (snd (runBenchmark exampleEnv getConfig initialWorld))))
     \<noteq> [''benchmark:0'', ''benchmark:1'']"
  by (simp add: runBenchmark_def Let_def getConfig_def exampleConfig_def exampleEnv_def
        initialWorld_def benchmarkBody_def populateLoop.simps getLoop.simps benchSet_def
        generateValue_def generateValueLoop.simps storageGet_def redis_set_def redis_get_def
        simulateLatency_def element_def js_or_def js_truthy_def showNat.simps
        charAt_def chars_def)

section \<open>The quotas of the MIXED benchmark\<close>












end
